theory Spec2Isabelle
  imports Complex_Main "HOL-Library.Sublist" "HOL-Library.Log_Nat"
begin

section \<open>Python strings\<close>

text \<open>
  A Python \<open>str\<close> is a sequence of code points. It is modelled as a \<open>string\<close>
  whose characters are the code points below 256; the operations below are the ones
  of \<open>str\<close> restricted to that range.
\<close>

definition py_isspace :: "char \<Rightarrow> bool" where
  \<comment> \<open>\<open>str.isspace\<close> for one code point: TAB..CR, FS..US, SPACE, NEL, NBSP.\<close>
  "py_isspace c =
     (let n = (of_char c :: nat)
      in (9 \<le> n \<and> n \<le> 13) \<or> (28 \<le> n \<and> n \<le> 32) \<or> n = 133 \<or> n = 160)"

definition py_strip :: "string \<Rightarrow> string" where
  \<comment> \<open>\<open>str.strip()\<close>: leading and trailing whitespace removed.\<close>
  "py_strip s = rev (dropWhile py_isspace (rev (dropWhile py_isspace s)))"



fun py_contains :: "string \<Rightarrow> string \<Rightarrow> bool" where
  \<comment> \<open>\<open>old in s\<close>: \<open>old\<close> is a contiguous part of \<open>s\<close>; the empty string is in every string.\<close>
  "py_contains old [] = (old = [])"
| "py_contains old (c # cs) = (prefix old (c # cs) \<or> py_contains old cs)"

fun py_replace1 :: "string \<Rightarrow> string \<Rightarrow> string \<Rightarrow> string" where
  \<comment> \<open>\<open>s.replace(old, new, 1)\<close>: the leftmost occurrence of \<open>old\<close> replaced by \<open>new\<close>.\<close>
  "py_replace1 old new [] = (if old = [] then new else [])"
| "py_replace1 old new (c # cs) =
     (if prefix old (c # cs) then new @ drop (length old) (c # cs)
      else c # py_replace1 old new cs)"

section \<open>Presentation targets (presentation\_targets.py)\<close>





record SpeakerProfile =
  age :: int
  role :: "string option"
  experience_level :: "string option"


definition truthy_str :: "string option \<Rightarrow> bool" where
  \<comment> \<open>Truth value of an \<open>Optional[str]\<close>: neither \<open>None\<close> nor empty.\<close>
  "truthy_str s = (case s of None \<Rightarrow> False | Some t \<Rightarrow> t \<noteq> [])"



section \<open>Slides and layout selection (models.py, design\_library.py)\<close>

record SlideContent =
  sc_slide_number :: int
  sc_title :: string
  sc_bullet_points :: "string list"
  sc_speaker_notes :: string
  sc_image_query :: "string option"

record SlideWithImage =
  slide_number :: int
  title :: string
  bullet_points :: "string list"
  speaker_notes :: string
  image_url :: "string option"
  image_query :: "string option"

datatype LayoutType =
    TITLE_SLIDE | BOLD_SECTION_DIVIDER | TITLE_AND_BULLETS | ACCENT_LEFT_LAYOUT
  | CARD_LAYOUT | HERO_RIGHT | HERO_BACKGROUND | IMAGE_FOCUS | TWO_COLUMN
  | MINIMAL_TEXT | CONCLUSION

definition slide_has_image :: "SlideWithImage \<Rightarrow> bool" where
  \<comment> \<open>\<open>bool(slide.image_url)\<close>\<close>
  "slide_has_image slide = truthy_str (image_url slide)"

definition slide_bullet_count :: "SlideWithImage \<Rightarrow> int" where
  \<comment> \<open>\<open>len(slide.bullet_points) if slide.bullet_points else 0\<close>\<close>
  "slide_bullet_count slide =
     (if bullet_points slide = [] then 0 else int (length (bullet_points slide)))"

definition select_layout :: "SlideWithImage \<Rightarrow> int \<Rightarrow> int \<Rightarrow> LayoutType" where
  \<comment> \<open>No operation of the body raises on a validated slide and integer arguments, so the
      \<open>except\<close> branch (\<open>TITLE_AND_BULLETS\<close>) is never taken.\<close>
  "select_layout slide slide_index total_slides =
     (let is_first = (slide_index = 0);
          is_last = (slide_index = total_slides - 1);
          has_image = slide_has_image slide;
          bullet_count = slide_bullet_count slide
      in if is_first then (if has_image then HERO_BACKGROUND else BOLD_SECTION_DIVIDER)
         else if is_last then CONCLUSION
         else if has_image \<and> bullet_count \<le> 2 then HERO_RIGHT
         else if has_image \<and> bullet_count \<le> 1 then IMAGE_FOCUS
         else if has_image then TWO_COLUMN
         else if bullet_count \<ge> 4 then CARD_LAYOUT
         else if bullet_count \<le> 2 then MINIMAL_TEXT
         else ACCENT_LEFT_LAYOUT)"

text \<open>
  The priority table of the specification, as a function of the four quantities it
  names; the first matching row wins.
\<close>

fun layout_table :: "int \<Rightarrow> int \<Rightarrow> bool \<Rightarrow> int \<Rightarrow> LayoutType" where
  "layout_table idx total_slides has_image bullet_count =
     (if idx = 0 \<and> has_image then HERO_BACKGROUND
      else if idx = 0 then BOLD_SECTION_DIVIDER
      else if idx = total_slides - 1 then CONCLUSION
      else if has_image \<and> bullet_count \<le> 2 then HERO_RIGHT
      else if has_image \<and> bullet_count \<le> 1 then IMAGE_FOCUS
      else if has_image then TWO_COLUMN
      else if bullet_count \<ge> 4 then CARD_LAYOUT
      else if bullet_count \<le> 2 then MINIMAL_TEXT
      else ACCENT_LEFT_LAYOUT)"

section \<open>Bullet preparation (ppt\_exporter.py)\<close>

definition MAX_BULLETS_DISPLAY :: nat where "MAX_BULLETS_DISPLAY = 6"
definition BODY_MIN_FONT_SIZE :: int where "BODY_MIN_FONT_SIZE = 10"
definition BODY_FONT_REDUCE_IF_BULLETS_ABOVE :: nat where "BODY_FONT_REDUCE_IF_BULLETS_ABOVE = 4"

record ThemeStyle =
  theme_name :: string
  font_family :: string
  title_size :: int
  body_size :: int
  caption_size :: int

definition theme_body_size :: "ThemeStyle option \<Rightarrow> int" where
  \<comment> \<open>\<open>getattr(self._theme, "body_size", 18)\<close>; the exporter's theme is \<open>None\<close> until set.\<close>
  "theme_body_size theme = (case theme of None \<Rightarrow> 18 | Some t \<Rightarrow> body_size t)"

definition prepare_bullets :: "ThemeStyle option \<Rightarrow> string list \<Rightarrow> string list \<times> int option" where
  "prepare_bullets theme bps =
     (if bps = [] then ([], None)
      else let bullets = take MAX_BULLETS_DISPLAY bps;
               font_override =
                 (if length bps \<ge> BODY_FONT_REDUCE_IF_BULLETS_ABOVE
                  then Some (max BODY_MIN_FONT_SIZE (theme_body_size theme - 2))
                  else None)
           in (bullets, font_override))"

definition theme_body_22 :: ThemeStyle where
  \<comment> \<open>A theme with the default sizes of \<open>ThemeStyle\<close>: body text of 22 points.\<close>
  "theme_body_22 = \<lparr>theme_name = ''Light Professional'', font_family = ''Calibri'',
     title_size = 48, body_size = 22, caption_size = 18\<rparr>"

section \<open>Fact-check patching (fact\_checker.py)\<close>

datatype IssueType = incorrect | misleading | outdated | unverifiable

record FactCheckIssue =
  original_text :: string
  issue_type :: IssueType
  explanation :: string
  corrected_text :: string

record FactCheckReport =
  issues :: "FactCheckIssue list"

record ManuscriptSection =
  name :: string
  content :: string

record PresentationManuscript =
  pm_title :: string
  sections :: "ManuscriptSection list"

definition apply_issue :: "string \<Rightarrow> FactCheckIssue \<Rightarrow> string" where
  \<comment> \<open>One turn of the inner loop of \<open>apply_patches\<close>: the content after this issue.\<close>
  "apply_issue cont issue =
     (if original_text issue = [] \<or> \<not> py_contains (original_text issue) cont then cont
      else py_replace1 (original_text issue) (corrected_text issue) cont)"

definition patch_section :: "FactCheckIssue list \<Rightarrow> ManuscriptSection \<Rightarrow> ManuscriptSection" where
  \<comment> \<open>One turn of the outer loop: the issues applied in report order, each to the
      content the previous ones left.\<close>
  "patch_section iss section =
     \<lparr>name = name section, content = foldl apply_issue (content section) iss\<rparr>"

definition apply_patches :: "PresentationManuscript \<Rightarrow> FactCheckReport \<Rightarrow> PresentationManuscript" where
  "apply_patches manuscript report =
     (if issues report = [] then manuscript
      else \<lparr>pm_title = pm_title manuscript,
            sections = map (patch_section (issues report)) (sections manuscript)\<rparr>)"

text \<open>
  \<open>old\<close> occurs in \<open>s\<close> after \<open>pre\<close> and before \<open>post\<close>, and nowhere further left: an
  occurrence that starts left of this one lies within \<open>pre\<close> followed by all but the
  last character of \<open>old\<close>.
\<close>

definition first_occurrence :: "string \<Rightarrow> string \<Rightarrow> string \<Rightarrow> string \<Rightarrow> bool" where
  "first_occurrence old s pre post =
     (s = pre @ old @ post \<and> \<not> py_contains old (pre @ butlast old))"

text \<open>Sample reports and manuscripts, used to run the patch engine.\<close>

definition issue_2019 :: FactCheckIssue where
  "issue_2019 = \<lparr>original_text = ''2019'', issue_type = outdated,
     explanation = ''year'', corrected_text = ''2020''\<rparr>"

definition issue_empty :: FactCheckIssue where
  "issue_empty = \<lparr>original_text = '''', issue_type = unverifiable,
     explanation = '''', corrected_text = ''X''\<rparr>"

definition manuscript_2019 :: PresentationManuscript where
  "manuscript_2019 = \<lparr>pm_title = ''History'', sections =
     [\<lparr>name = ''Introduction'', content = ''2019 and 2019''\<rparr>,
      \<lparr>name = ''Conclusion'', content = ''The end''\<rparr>]\<rparr>"

definition manuscript_once :: PresentationManuscript where
  "manuscript_once = \<lparr>pm_title = ''History'', sections =
     [\<lparr>name = ''Introduction'', content = ''Founded in 2019.''\<rparr>,
      \<lparr>name = ''Conclusion'', content = ''The end''\<rparr>]\<rparr>"

section \<open>Exceptions and the generation service\<close>

text \<open>
  A call that raises is a value \<open>Inl e\<close>. The exceptions are the instances of Python's
  \<open>Exception\<close>, which every \<open>except Exception\<close> of the code catches. The generation
  service and the image search are outside the program: their answers are parameters of
  the functions that call them.
\<close>

datatype exn = HTTPError string | ImageServiceError string | OtherError string

section \<open>Slide extraction (slide\_generator.py)\<close>

record SlideListOutput =
  slides :: "SlideContent list"

definition valid_slide :: "SlideContent \<Rightarrow> bool" where
  \<comment> \<open>The schema's constraint on a slide: \<open>slide_number: int = Field(..., ge=1)\<close>.\<close>
  "valid_slide s = (sc_slide_number s \<ge> 1)"

definition generate :: "exn + SlideListOutput \<Rightarrow> exn + SlideContent list" where
  \<comment> \<open>The argument is the outcome of \<open>self._llm.generate_structured\<close>; the prompt built from
      the manuscript is text for the service and enters the result in no other way.\<close>
  "generate llm_result =
     (case llm_result of
        Inl e \<Rightarrow> Inl e
      | Inr result \<Rightarrow>
          Inr (map (\<lambda>s. \<lparr>sc_slide_number = sc_slide_number s, sc_title = sc_title s,
                          sc_bullet_points = sc_bullet_points s, sc_speaker_notes = [],
                          sc_image_query = sc_image_query s\<rparr>) (slides result)))"

fun numbered_from :: "int \<Rightarrow> int list \<Rightarrow> bool" where
  \<comment> \<open>The numbers are \<open>k\<close>, \<open>k + 1\<close>, \<open>k + 2\<close>, ... in this order.\<close>
  "numbered_from k [] = True"
| "numbered_from k (n # ns) = (n = k \<and> numbered_from (k + 1) ns)"

definition answer_2_2 :: SlideListOutput where
  "answer_2_2 = \<lparr>slides =
     [\<lparr>sc_slide_number = 2, sc_title = ''Welcome'', sc_bullet_points = [''a''],
       sc_speaker_notes = ''hello'', sc_image_query = None\<rparr>,
      \<lparr>sc_slide_number = 2, sc_title = ''Robots'', sc_bullet_points = [''b'', ''c''],
       sc_speaker_notes = '''', sc_image_query = Some ''robot arm''\<rparr>]\<rparr>"

definition answer_1_2 :: SlideListOutput where
  "answer_1_2 = \<lparr>slides =
     [\<lparr>sc_slide_number = 1, sc_title = ''Welcome'', sc_bullet_points = [''a''],
       sc_speaker_notes = ''hello'', sc_image_query = None\<rparr>,
      \<lparr>sc_slide_number = 2, sc_title = ''Robots'', sc_bullet_points = [''b'', ''c''],
       sc_speaker_notes = '''', sc_image_query = Some ''robot arm''\<rparr>]\<rparr>"

section \<open>Review gate (script\_reviewer.py)\<close>

record ScriptReviewEvaluation =
  score :: int
  strengths :: "string list"
  weaknesses :: "string list"
  missing_topics :: "string list"
  improvement_suggestions :: "string list"

datatype review_event = EvaluateCall | PrintImproving | RewriteCall

definition review_and_improve ::
  "(PresentationManuscript \<Rightarrow> exn + ScriptReviewEvaluation)
   \<Rightarrow> (PresentationManuscript \<Rightarrow> ScriptReviewEvaluation \<Rightarrow> exn + PresentationManuscript)
   \<Rightarrow> PresentationManuscript
   \<Rightarrow> (PresentationManuscript \<times> int) \<times> review_event list" where
  \<comment> \<open>\<open>evaluate\<close> and \<open>rewrite\<close> are \<open>self._evaluate\<close> and \<open>self._rewrite\<close> at the topic,
      audience, duration and language of the call. The second component of the result
      is the trace of what the call did, in order.\<close>
  "review_and_improve evaluate rewrite manuscript =
     (case evaluate manuscript of
        Inl e \<Rightarrow> ((manuscript, 0), [EvaluateCall])
      | Inr evaluation \<Rightarrow>
          if score evaluation \<ge> 8 then ((manuscript, score evaluation), [EvaluateCall])
          else (case rewrite manuscript evaluation of
                  Inl e \<Rightarrow> ((manuscript, 0), [EvaluateCall, PrintImproving, RewriteCall])
                | Inr improved \<Rightarrow>
                    ((improved, score evaluation),
                     [EvaluateCall, PrintImproving, RewriteCall])))"

definition evaluation_of :: "int \<Rightarrow> ScriptReviewEvaluation" where
  "evaluation_of n = \<lparr>score = n, strengths = [], weaknesses = [''flat''],
     missing_topics = [], improvement_suggestions = [''add an example'']\<rparr>"

section \<open>Image enrichment (image\_service.py)\<close>

definition MIN_WIDTH :: int where "MIN_WIDTH = 800"

record UnsplashResult =
  \<comment> \<open>One entry of the search answer: \<open>r.get("urls", {}).get("regular")\<close>, \<open>.get("small")\<close>,
      \<open>r.get("width", 0)\<close> and \<open>r.get("height", 0)\<close>, the last two integers.\<close>
  urls_regular :: "string option"
  urls_small :: "string option"
  width :: int
  height :: int

record Candidate =
  url :: string
  cand_width :: int
  cand_height :: int
  raw :: UnsplashResult

record ImageEvaluation =
  ie_score :: int
  reason :: string
  suitable_as_background :: bool

record ImageService =
  \<comment> \<open>The first argument of \<open>search\<close> and of the evaluator is the task that calls (the
      index of the slide), so that a request can fail for one slide and succeed for
      another. \<open>search\<close> is the request, its status check and the \<open>results\<close> entry of
      its JSON; the evaluator is \<open>evaluate_image_vision\<close> of the client, when there
      is a client.\<close>
  candidates_per_query :: nat
  search :: "nat \<Rightarrow> string \<Rightarrow> nat \<Rightarrow> exn + UnsplashResult list"
  vision :: "(nat \<Rightarrow> string \<Rightarrow> string \<Rightarrow> string \<Rightarrow> exn + ImageEvaluation) option"

definition py_or :: "string option \<Rightarrow> string option \<Rightarrow> string option" where
  \<comment> \<open>\<open>a or b\<close> on optional strings\<close>
  "py_or a b = (if truthy_str a then a else b)"

definition result_url :: "UnsplashResult \<Rightarrow> string option" where
  \<comment> \<open>\<open>urls.get("regular") or urls.get("small")\<close>\<close>
  "result_url r = py_or (urls_regular r) (urls_small r)"

fun first_landscape_url :: "UnsplashResult list \<Rightarrow> string option" where
  \<comment> \<open>The first loop of \<open>_metadata_select_best\<close>.\<close>
  "first_landscape_url [] = None"
| "first_landscape_url (r # rs) =
     (if width r \<noteq> 0 \<and> height r \<noteq> 0 \<and> width r < height r then first_landscape_url rs
      else if width r < MIN_WIDTH then first_landscape_url rs
      else if truthy_str (result_url r) then result_url r
      else first_landscape_url rs)"

fun first_usable_url :: "UnsplashResult list \<Rightarrow> string option" where
  \<comment> \<open>The second loop of \<open>_metadata_select_best\<close>.\<close>
  "first_usable_url [] = None"
| "first_usable_url (r # rs) =
     (if truthy_str (result_url r) then result_url r else first_usable_url rs)"

definition metadata_select_best :: "UnsplashResult list \<Rightarrow> string option" where
  "metadata_select_best results =
     (case first_landscape_url results of
        Some u \<Rightarrow> Some u
      | None \<Rightarrow> first_usable_url results)"

definition to_candidate :: "UnsplashResult \<Rightarrow> Candidate" where
  "to_candidate r =
     \<lparr>url = the (result_url r), cand_width = width r, cand_height = height r, raw = r\<rparr>"

definition parse_candidates :: "UnsplashResult list \<Rightarrow> Candidate list" where
  "parse_candidates results =
     (let candidates =
            map to_candidate
              (filter (\<lambda>r. truthy_str (result_url r) \<and> \<not> width r < height r) results)
      in if candidates = []
         then map to_candidate (filter (\<lambda>r. truthy_str (result_url r)) results)
         else candidates)"

definition evaluate_candidate ::
  "(string \<Rightarrow> string \<Rightarrow> string \<Rightarrow> exn + ImageEvaluation) option
   \<Rightarrow> Candidate \<Rightarrow> string \<Rightarrow> string \<Rightarrow> ImageEvaluation option" where
  \<comment> \<open>\<open>_evaluate_candidate\<close>: \<open>None\<close> without a client and when the evaluation raises.\<close>
  "evaluate_candidate llm candidate slide_topic slide_context =
     (case llm of
        None \<Rightarrow> None
      | Some f \<Rightarrow>
          (case f (url candidate) slide_topic slide_context of
             Inl e \<Rightarrow> None
           | Inr ev \<Rightarrow> Some ev))"

definition vision_key :: "bool \<Rightarrow> Candidate \<times> ImageEvaluation \<Rightarrow> int \<times> int" where
  "vision_key prefer_background item =
     (let ev = snd item;
          bg_bonus = (if prefer_background \<and> suitable_as_background ev then 1 else 0)
      in (ie_score ev + bg_bonus * 2, ie_score ev))"

definition tuple_gt :: "int \<times> int \<Rightarrow> int \<times> int \<Rightarrow> bool" where
  \<comment> \<open>\<open>a > b\<close> on pairs of integers, as Python compares tuples.\<close>
  "tuple_gt a b = (fst a > fst b \<or> (fst a = fst b \<and> snd a > snd b))"

fun py_max :: "('a \<Rightarrow> int \<times> int) \<Rightarrow> 'a \<Rightarrow> 'a list \<Rightarrow> 'a" where
  \<comment> \<open>\<open>max(best :: rest, key=key)\<close>: the first item among those of greatest key.\<close>
  "py_max key best [] = best"
| "py_max key best (x # xs) = py_max key (if tuple_gt (key x) (key best) then x else best) xs"

definition select_best_by_vision ::
  "Candidate list \<Rightarrow> (Candidate \<times> ImageEvaluation) list \<Rightarrow> bool \<Rightarrow> string option" where
  "select_best_by_vision candidates evaluations prefer_background =
     (case evaluations of
        [] \<Rightarrow> None
      | e # es \<Rightarrow> Some (url (fst (py_max (vision_key prefer_background) e es))))"

definition fetch_image_for_query ::
  "ImageService \<Rightarrow> nat \<Rightarrow> string \<Rightarrow> string \<Rightarrow> string \<Rightarrow> bool \<Rightarrow> exn + string option" where
  "fetch_image_for_query svc task query slide_topic slide_context prefer_background =
     (case search svc task query (candidates_per_query svc) of
        Inl (HTTPError msg) \<Rightarrow> Inl (ImageServiceError (''Unsplash API error: '' @ msg))
      | Inl (ImageServiceError msg) \<Rightarrow> Inl (ImageServiceError msg)
      | Inl (OtherError msg) \<Rightarrow> Inl (OtherError msg)
      | Inr data_results \<Rightarrow>
          (let results = take 3 data_results
           in if results = [] then Inr None
              else let candidates = parse_candidates results
                   in if candidates = [] then Inr None
                      else let topic = (if slide_topic \<noteq> [] then slide_topic else query);
                               context = (if slide_context \<noteq> [] then slide_context
                                          else ''Search: '' @ query);
                               llm = map_option (\<lambda>f. f task) (vision svc);
                               evaluations =
                                 (if llm \<noteq> None
                                  then List.map_filter
                                         (\<lambda>c. map_option (Pair c)
                                                (evaluate_candidate llm c topic context))
                                         candidates
                                  else [])
                           in if evaluations \<noteq> []
                              then Inr (select_best_by_vision candidates evaluations
                                          prefer_background)
                              else Inr (metadata_select_best results)))"

fun py_join :: "string \<Rightarrow> string list \<Rightarrow> string" where
  \<comment> \<open>\<open>sep.join(xs)\<close>\<close>
  "py_join sep [] = []"
| "py_join sep [x] = x"
| "py_join sep (x # y # ys) = x @ sep @ py_join sep (y # ys)"

definition has_image_query :: "SlideContent \<Rightarrow> bool" where
  \<comment> \<open>\<open>slide.image_query and slide.image_query.strip()\<close>\<close>
  "has_image_query slide =
     (case sc_image_query slide of None \<Rightarrow> False | Some q \<Rightarrow> q \<noteq> [] \<and> py_strip q \<noteq> [])"

definition slide_context :: "SlideContent \<Rightarrow> string" where
  \<comment> \<open>\<open>" | ".join(slide.bullet_points[:3]) if slide.bullet_points else ""\<close>\<close>
  "slide_context slide =
     (if sc_bullet_points slide \<noteq> [] then py_join '' | '' (take 3 (sc_bullet_points slide))
      else [])"

definition slide_image :: "ImageService \<Rightarrow> nat \<Rightarrow> SlideContent \<Rightarrow> string option" where
  \<comment> \<open>The value of \<open>image_url\<close> when \<open>process_slide\<close> builds its result: the \<open>try\<close> block
      with its \<open>except Exception\<close>.\<close>
  "slide_image svc i slide =
     (if has_image_query slide
      then (case fetch_image_for_query svc i (py_strip (the (sc_image_query slide)))
                   (sc_title slide) (slide_context slide) (i = 0) of
              Inl e \<Rightarrow> None
            | Inr u \<Rightarrow> u)
      else None)"

definition with_image :: "SlideContent \<Rightarrow> string option \<Rightarrow> SlideWithImage" where
  "with_image slide u =
     \<lparr>slide_number = sc_slide_number slide, title = sc_title slide,
      bullet_points = sc_bullet_points slide, speaker_notes = sc_speaker_notes slide,
      image_url = u, image_query = sc_image_query slide\<rparr>"

definition process_slide :: "ImageService \<Rightarrow> nat \<Rightarrow> SlideContent \<Rightarrow> exn + SlideWithImage" where
  "process_slide svc i slide = Inr (with_image slide (slide_image svc i slide))"

definition enrich_slides_with_images :: "ImageService \<Rightarrow> SlideContent list \<Rightarrow> SlideWithImage list" where
  \<comment> \<open>One task per slide, gathered in the order of the slides; a task that raised is
      replaced by the slide without an image.\<close>
  "enrich_slides_with_images svc slide_list =
     map (\<lambda>(i, slide). case process_slide svc i slide of
                          Inl e \<Rightarrow> with_image slide None
                        | Inr r \<Rightarrow> r)
         (List.enumerate 0 slide_list)"

definition same_service_for :: "nat \<Rightarrow> ImageService \<Rightarrow> ImageService \<Rightarrow> bool" where
  \<comment> \<open>Two services answer the calls of task \<open>i\<close> alike; they may differ on every other task.\<close>
  "same_service_for i svc svc' =
     (candidates_per_query svc' = candidates_per_query svc
      \<and> search svc' i = search svc i
      \<and> map_option (\<lambda>f. f i) (vision svc') = map_option (\<lambda>f. f i) (vision svc))"

text \<open>Sample slides and services, used to run the enrichment.\<close>

definition slide_intro :: SlideContent where
  "slide_intro = \<lparr>sc_slide_number = 1, sc_title = ''Welcome'', sc_bullet_points = [''a''],
     sc_speaker_notes = ''greet'', sc_image_query = None\<rparr>"

definition slide_robots :: SlideContent where
  "slide_robots = \<lparr>sc_slide_number = 2, sc_title = ''Robots'', sc_bullet_points = [''b'', ''c''],
     sc_speaker_notes = ''demo'', sc_image_query = Some ''robot arm''\<rparr>"

definition slide_solar :: SlideContent where
  "slide_solar = \<lparr>sc_slide_number = 3, sc_title = ''Solar'', sc_bullet_points = [''d''],
     sc_speaker_notes = '''', sc_image_query = Some '' solar panels ''\<rparr>"

definition photo_wide :: UnsplashResult where
  "photo_wide = \<lparr>urls_regular = Some ''https://img/wide'', urls_small = None,
     width = 1600, height = 900\<rparr>"

definition service_search_fails_for_1 :: ImageService where
  \<comment> \<open>No vision client; the search of task 1 fails, every other search finds one photo.\<close>
  "service_search_fails_for_1 = \<lparr>candidates_per_query = 3,
     search = (\<lambda>task q n. if task = 1 then Inl (HTTPError ''503'') else Inr [photo_wide]),
     vision = None\<rparr>"

definition service_vision_fails :: ImageService where
  \<comment> \<open>Every search finds one photo; every evaluation raises.\<close>
  "service_vision_fails = \<lparr>candidates_per_query = 3,
     search = (\<lambda>task q n. Inr [photo_wide]),
     vision = Some (\<lambda>task u t c. Inl (OtherError ''vision unavailable''))\<rparr>"

section \<open>Double-precision arithmetic\<close>

text \<open>
  Python's \<open>float\<close> is an IEEE 754 double. A finite double is modelled by the rational
  number it denotes, and an operation on doubles by the exact operation followed by
  \<open>round_double\<close>, which rounds to the nearest number with a 53-bit significand, ties
  to the even significand. The exponent is not bounded: overflow and gradual underflow,
  which set in beyond magnitudes of about \<open>10\<close> to the power of plus or minus 307, are
  not modelled.
\<close>

definition round_half_even :: "rat \<Rightarrow> int" where
  \<comment> \<open>The nearest integer, the even one of two that are equally near.\<close>
  "round_half_even y =
     (let f = \<lfloor>y\<rfloor>; d = y - of_int f
      in if d < 1 / 2 then f
         else if d > 1 / 2 then f + 1
         else if even f then f else f + 1)"

definition exponent_of :: "rat \<Rightarrow> int" where
  \<comment> \<open>For \<open>x > 0\<close>, the exponent \<open>e\<close> of the unit in the last place: \<open>x / 2 powi e\<close> lies
      between \<open>2 ^ 52\<close> (included) and \<open>2 ^ 53\<close>.\<close>
  "exponent_of x =
     (let (a, b) = quotient_of x;
          k = bitlen a - bitlen b
      in (if 2 powi k \<le> x then k else k - 1) - 52)"

definition round_double :: "rat \<Rightarrow> rat" where
  "round_double x =
     (if x = 0 then 0
      else if x > 0
      then of_int (round_half_even (x / 2 powi exponent_of x)) * 2 powi exponent_of x
      else - (of_int (round_half_even (- x / 2 powi exponent_of (- x)))
               * 2 powi exponent_of (- x)))"

section \<open>Image fitting (ppt\_exporter.py)\<close>

definition IMG_DPI :: rat where "IMG_DPI = 96"

definition EMUS_PER_INCH :: rat where "EMUS_PER_INCH = 914400"

definition py_int :: "rat \<Rightarrow> int" where
  \<comment> \<open>\<open>int(x)\<close> of a float: truncation towards zero.\<close>
  "py_int x = (if 0 \<le> x then \<lfloor>x\<rfloor> else \<lceil>x\<rceil>)"

definition Inches :: "rat \<Rightarrow> int" where
  \<comment> \<open>\<open>Inches(x)\<close> of python-pptx, a length in English Metric Units:
      \<open>int(inches * 914400)\<close>.\<close>
  "Inches inches = py_int (round_double (inches * EMUS_PER_INCH))"

definition get_image_size_inches :: "exn + int \<times> int \<Rightarrow> (rat \<times> rat) option" where
  \<comment> \<open>The argument is what \<open>Image.open(stream).size\<close> gives: an exception, or the width
      and height in pixels (below \<open>2 ^ 53\<close>, where an \<open>int\<close> becomes a double exactly).\<close>
  "get_image_size_inches pil =
     (case pil of
        Inl e \<Rightarrow> None
      | Inr (w_px, h_px) \<Rightarrow>
          if w_px \<le> 0 \<or> h_px \<le> 0 then None
          else Some (round_double (of_int w_px / IMG_DPI),
                     round_double (of_int h_px / IMG_DPI)))"

record Picture =
  \<comment> \<open>A picture shape on the slide: position and size in English Metric Units.\<close>
  pic_left :: int
  pic_top :: int
  pic_width :: int
  pic_height :: int

definition fit_geometry ::
  "rat \<Rightarrow> rat \<Rightarrow> rat \<Rightarrow> rat \<Rightarrow> rat \<Rightarrow> rat \<Rightarrow> rat \<times> rat \<times> rat \<times> rat" where
  \<comment> \<open>The doubles \<open>left_cen\<close>, \<open>top_cen\<close>, \<open>fit_w\<close> and \<open>fit_h\<close> of
      \<open>_add_picture_fit_centered\<close>.\<close>
  "fit_geometry img_w img_h left_inch top_inch box_width_inch box_height_inch =
     (let scale = min (round_double (box_width_inch / img_w))
                      (round_double (box_height_inch / img_h));
          fit_w = round_double (img_w * scale);
          fit_h = round_double (img_h * scale);
          left_cen = round_double
            (left_inch + round_double (round_double (box_width_inch - fit_w) / 2));
          top_cen = round_double
            (top_inch + round_double (round_double (box_height_inch - fit_h) / 2))
      in (left_cen, top_cen, fit_w, fit_h))"

definition add_picture_fit_centered ::
  "exn + int \<times> int \<Rightarrow> exn option \<Rightarrow> Picture list \<Rightarrow> rat \<Rightarrow> rat \<Rightarrow> rat \<Rightarrow> rat
   \<Rightarrow> bool \<times> Picture list" where
  \<comment> \<open>\<open>add_picture_raises\<close> is the exception of \<open>slide.shapes.add_picture\<close>, if it raises;
      \<open>shapes\<close> are the pictures on the slide before the call. The result is the value
      returned and the pictures on the slide after the call.\<close>
  "add_picture_fit_centered pil add_picture_raises shapes left_inch top_inch
       box_width_inch box_height_inch =
     (case get_image_size_inches pil of
        None \<Rightarrow> (False, shapes)
      | Some (img_w, img_h) \<Rightarrow>
          if img_w \<le> 0 \<or> img_h \<le> 0 then (False, shapes)
          else (case fit_geometry img_w img_h left_inch top_inch
                       box_width_inch box_height_inch of
                  (left_cen, top_cen, fit_w, fit_h) \<Rightarrow>
                    (case add_picture_raises of
                       Some e \<Rightarrow> (False, shapes)
                     | None \<Rightarrow>
                         (True, shapes @ [\<lparr>pic_left = Inches left_cen,
                                            pic_top = Inches top_cen,
                                            pic_width = Inches fit_w,
                                            pic_height = Inches fit_h\<rparr>]))))"

section \<open>Properties\<close>

subsection \<open>Layout selection\<close>

text \<open>
  Claim C3. \<open>select_layout\<close> is the priority table of the specification applied to the
  slide index, the total slide count, whether the slide has an image (an \<open>image_url\<close>
  that is neither \<open>None\<close> nor empty) and its number of bullets (the length of
  \<open>bullet_points\<close>). In particular a slide that is neither first nor last, with an image and two
  bullets, gets \<open>HERO_RIGHT\<close> and not \<open>IMAGE_FOCUS\<close>; a first slide without an image
  gets \<open>BOLD_SECTION_DIVIDER\<close>; a last slide that is not the first gets \<open>CONCLUSION\<close>.
\<close>

theorem select_layout_table:
  "select_layout slide i n
     = layout_table i n (image_url slide \<noteq> None \<and> image_url slide \<noteq> Some [])
         (int (length (bullet_points slide)))
   \<and> (i \<noteq> 0 \<and> i \<noteq> n - 1 \<and> image_url slide = Some u \<and> u \<noteq> []
        \<and> length (bullet_points slide) = 2
        \<longrightarrow> select_layout slide i n = HERO_RIGHT \<and> select_layout slide i n \<noteq> IMAGE_FOCUS)
   \<and> (image_url slide = None \<or> image_url slide = Some []
        \<longrightarrow> select_layout slide 0 n = BOLD_SECTION_DIVIDER)
   \<and> (i \<noteq> 0 \<and> i = n - 1 \<longrightarrow> select_layout slide i n = CONCLUSION)"
  by (auto simp: select_layout_def slide_bullet_count_def slide_has_image_def truthy_str_def
      Let_def split: option.splits)

theorem select_layout_table_witness:
  "select_layout \<lparr>slide_number = 2, title = ''Robots'', bullet_points = [''a'', ''b''],
      speaker_notes = '''', image_url = Some ''https://img/1'', image_query = Some ''robot''\<rparr> 1 3
    = HERO_RIGHT
   \<and> select_layout \<lparr>slide_number = 1, title = ''Intro'', bullet_points = [''a''],
      speaker_notes = '''', image_url = None, image_query = None\<rparr> 0 3 = BOLD_SECTION_DIVIDER
   \<and> select_layout \<lparr>slide_number = 3, title = ''End'', bullet_points = [''a'', ''b'', ''c''],
      speaker_notes = '''', image_url = Some ''https://img/2'', image_query = None\<rparr> 2 3 = CONCLUSION
   \<and> select_layout \<lparr>slide_number = 2, title = ''Agenda'',
      bullet_points = [''a'', ''b'', ''c'', ''d'', ''e''], speaker_notes = '''',
      image_url = None, image_query = None\<rparr> 1 3 = CARD_LAYOUT"
  using select_layout_table [where i = 1 and n = 3 and slide = "\<lparr>slide_number = 2, title = ''Robots'',
      bullet_points = [''a'', ''b''], speaker_notes = '''', image_url = Some ''https://img/1'',
      image_query = Some ''robot''\<rparr>" and u = "''https://img/1''"]
    select_layout_table [where i = 0 and n = 3 and slide = "\<lparr>slide_number = 1, title = ''Intro'',
      bullet_points = [''a''], speaker_notes = '''', image_url = None, image_query = None\<rparr>"]
    select_layout_table [where i = 2 and n = 3 and slide = "\<lparr>slide_number = 3, title = ''End'',
      bullet_points = [''a'', ''b'', ''c''], speaker_notes = '''', image_url = Some ''https://img/2'',
      image_query = None\<rparr>"]
    select_layout_table [where i = 1 and n = 3 and slide = "\<lparr>slide_number = 2, title = ''Agenda'',
      bullet_points = [''a'', ''b'', ''c'', ''d'', ''e''], speaker_notes = '''',
      image_url = None, image_query = None\<rparr>"]
  by simp

subsection \<open>Presentation targets\<close>





subsection \<open>Bullet preparation\<close>

text \<open>
  Claim C9. \<open>_prepare_bullets\<close> returns the first six bullets at most, and a body font
  override of \<open>max 10 (body_size - 2)\<close>, with \<open>body_size\<close> read from the exporter's
  theme (18 when no theme is set, which gives 16), exactly when the list it was given
  has four bullets or more, whatever remains after the cap; otherwise it returns no
  override.
\<close>

theorem prepare_bullets_spec:
  "fst (prepare_bullets theme bps) = take 6 bps
   \<and> length (fst (prepare_bullets theme bps)) \<le> 6
   \<and> snd (prepare_bullets theme bps)
       = (if length bps \<ge> 4
          then Some (case theme of None \<Rightarrow> 16 | Some t \<Rightarrow> max 10 (body_size t - 2))
          else None)"
  by (simp add: prepare_bullets_def MAX_BULLETS_DISPLAY_def BODY_MIN_FONT_SIZE_def
      BODY_FONT_REDUCE_IF_BULLETS_ABOVE_def theme_body_size_def Let_def split: option.splits)

theorem prepare_bullets_spec_witness:
  "prepare_bullets (Some theme_body_22) [''a'', ''b'', ''c'', ''d'', ''e'', ''f'', ''g'']
     = ([''a'', ''b'', ''c'', ''d'', ''e'', ''f''], Some 20)
   \<and> prepare_bullets None [''a'', ''b'', ''c'', ''d''] = ([''a'', ''b'', ''c'', ''d''], Some 16)
   \<and> prepare_bullets (Some theme_body_22) [''a'', ''b'', ''c''] = ([''a'', ''b'', ''c''], None)"
  using prepare_bullets_spec [of "Some theme_body_22" "[''a'', ''b'', ''c'', ''d'', ''e'', ''f'', ''g'']"]
    prepare_bullets_spec [of None "[''a'', ''b'', ''c'', ''d'']"]
    prepare_bullets_spec [of "Some theme_body_22" "[''a'', ''b'', ''c'']"]
  by (simp add: theme_body_22_def prod_eq_iff)

subsection \<open>Fact-check patching\<close>

text \<open>
  The substring test and the replacement of the leftmost occurrence, against their
  meaning on lists.
\<close>

lemma py_contains_sublist: "py_contains old s = sublist old s"
  by (induction s) (simp_all add: sublist_Cons_right)

lemma py_contains_iff: "py_contains old s \<longleftrightarrow> (\<exists>pre post. s = pre @ old @ post)"
  by (simp add: py_contains_sublist sublist_def)

lemma py_contains_length: "py_contains old s \<Longrightarrow> length old \<le> length s"
  by (auto simp: py_contains_iff)

lemma prefix_occurrence_left:
  assumes "prefix old (pre @ old @ post)" and "pre \<noteq> []"
  shows "prefix old (pre @ butlast old)"
proof (cases "old = []")
  case True
  then show ?thesis by simp
next
  case False
  then have "old = butlast old @ [last old]" by simp
  then have "pre @ old @ post = (pre @ butlast old) @ ([last old] @ post)"
    by (metis append.assoc)
  then have "prefix (pre @ butlast old) (pre @ old @ post)"
    by (metis prefixI)
  with assms(1) have "prefix old (pre @ butlast old) \<or> prefix (pre @ butlast old) old"
    using prefix_same_cases by blast
  moreover have "length old \<le> length (pre @ butlast old)"
    using assms(2) False by (cases pre) auto
  ultimately show ?thesis
    by (metis prefix_length_le prefix_order.eq_iff prefix_length_prefix order_refl)
qed

lemma py_replace1_first:
  assumes "old \<noteq> []" and "first_occurrence old s pre post"
  shows "py_replace1 old new s = pre @ new @ post"
  using assms(2) unfolding first_occurrence_def
proof (induction pre arbitrary: s)
  case Nil
  then have s: "s = old @ post" by simp
  obtain c cs where old: "old = c # cs" using assms(1) by (cases old) auto
  have "py_replace1 old new (c # (cs @ post)) = new @ drop (length old) (c # (cs @ post))"
    unfolding old by simp
  then show ?case by (simp add: s old)
next
  case (Cons a pre)
  from Cons.prems have s: "s = a # (pre @ old @ post)" by simp
  have np: "\<not> prefix old (a # (pre @ old @ post))"
  proof
    assume "prefix old (a # (pre @ old @ post))"
    then have "prefix old ((a # pre) @ old @ post)" by simp
    then have "prefix old ((a # pre) @ butlast old)"
      by (rule prefix_occurrence_left) simp
    with Cons.prems show False by simp
  qed
  have "\<not> py_contains old (pre @ butlast old)" using Cons.prems by simp
  then have "py_replace1 old new (pre @ old @ post) = pre @ new @ post"
    using Cons.IH by simp
  with s np show ?case by simp
qed

lemma first_occurrence_exists:
  assumes "old \<noteq> []" and "py_contains old s"
  shows "\<exists>pre post. first_occurrence old s pre post"
  using assms(2)
proof (induction s)
  case Nil
  with assms(1) show ?case by simp
next
  case (Cons c cs)
  show ?case
  proof (cases "prefix old (c # cs)")
    case True
    then obtain post where "c # cs = old @ post" by (auto simp: prefix_def)
    moreover have "\<not> py_contains old (butlast old)"
      using assms(1) py_contains_length [of old "butlast old"] by (cases old rule: rev_cases) auto
    ultimately have "first_occurrence old (c # cs) [] post"
      by (simp add: first_occurrence_def)
    then show ?thesis by blast
  next
    case False
    with Cons.prems have "py_contains old cs" by simp
    then obtain pre post where f: "first_occurrence old cs pre post"
      using Cons.IH by blast
    then have cs: "cs = pre @ old @ post" and n: "\<not> py_contains old (pre @ butlast old)"
      by (simp_all add: first_occurrence_def)
    have "\<not> prefix old (c # pre @ butlast old)"
    proof
      assume p: "prefix old (c # pre @ butlast old)"
      have "old = butlast old @ [last old]" using assms(1) by simp
      then have "c # cs = (c # pre @ butlast old) @ ([last old] @ post)"
        using cs by (metis append.assoc append_Cons)
      then have "prefix (c # pre @ butlast old) (c # cs)" by (metis prefixI)
      with p have "prefix old (c # cs)" using prefix_order.trans by blast
      with False show False by simp
    qed
    with n cs have "first_occurrence old (c # cs) (c # pre) post"
      by (simp add: first_occurrence_def)
    then show ?thesis by blast
  qed
qed

lemma foldl_apply_issue_no_match:
  assumes "\<forall>i \<in> set iss. original_text i = [] \<or> \<not> py_contains (original_text i) c"
  shows "foldl apply_issue c iss = c"
  using assms by (induction iss) (simp_all add: apply_issue_def)

lemma patch_section_no_match:
  assumes "\<forall>i \<in> set iss. original_text i = [] \<or> \<not> py_contains (original_text i) (content s)"
  shows "patch_section iss s = s"
  using foldl_apply_issue_no_match [OF assms] by (simp add: patch_section_def)

lemma apply_issue_first:
  assumes "original_text i \<noteq> []" and "first_occurrence (original_text i) c pre post"
  shows "apply_issue c i = pre @ corrected_text i @ post"
proof -
  from assms(2) have "py_contains (original_text i) c"
    by (auto simp: first_occurrence_def py_contains_iff)
  with assms show ?thesis
    by (simp add: apply_issue_def py_replace1_first)
qed

text \<open>
  Claim C1, as amended: an issue with an empty \<open>original_text\<close> is skipped. For every
  manuscript and report, \<open>apply_patches\<close> keeps the title and the section names; each
  section's content is the result of applying the issues in report order, each to the
  content the previous ones left; an issue whose \<open>original_text\<close> is not empty and
  occurs in the content replaces its leftmost occurrence, and only that one, by
  \<open>corrected_text\<close>; an issue whose \<open>original_text\<close> is empty or does not occur leaves
  the content as it is; a section no issue matches is returned as it is; with no issues
  the manuscript is returned as it is.
\<close>

theorem apply_patches_spec:
  "(issues r = [] \<longrightarrow> apply_patches m r = m)
   \<and> pm_title (apply_patches m r) = pm_title m
   \<and> map name (sections (apply_patches m r)) = map name (sections m)
   \<and> map content (sections (apply_patches m r))
       = map (\<lambda>s. foldl apply_issue (content s) (issues r)) (sections m)
   \<and> (original_text i \<noteq> [] \<and> py_contains (original_text i) c
        \<longrightarrow> (\<exists>pre post. first_occurrence (original_text i) c pre post))
   \<and> (original_text i \<noteq> [] \<and> first_occurrence (original_text i) c pre post
        \<longrightarrow> apply_issue c i = pre @ corrected_text i @ post)
   \<and> (original_text i = [] \<or> \<not> py_contains (original_text i) c \<longrightarrow> apply_issue c i = c)
   \<and> (k < length (sections m)
        \<and> (\<forall>j \<in> set (issues r). original_text j = []
               \<or> \<not> py_contains (original_text j) (content (sections m ! k)))
        \<longrightarrow> sections (apply_patches m r) ! k = sections m ! k)"
proof -
  have a: "issues r = [] \<longrightarrow> apply_patches m r = m"
    by (simp add: apply_patches_def)
  have b: "pm_title (apply_patches m r) = pm_title m"
    by (simp add: apply_patches_def)
  have c: "map name (sections (apply_patches m r)) = map name (sections m)"
    by (simp add: apply_patches_def patch_section_def comp_def)
  have d: "map content (sections (apply_patches m r))
       = map (\<lambda>s. foldl apply_issue (content s) (issues r)) (sections m)"
    by (simp add: apply_patches_def patch_section_def comp_def)
  have e: "original_text i \<noteq> [] \<and> py_contains (original_text i) c
        \<longrightarrow> (\<exists>pre post. first_occurrence (original_text i) c pre post)"
    using first_occurrence_exists by blast
  have f: "original_text i \<noteq> [] \<and> first_occurrence (original_text i) c pre post
        \<longrightarrow> apply_issue c i = pre @ corrected_text i @ post"
    using apply_issue_first by blast
  have g: "original_text i = [] \<or> \<not> py_contains (original_text i) c \<longrightarrow> apply_issue c i = c"
    by (simp add: apply_issue_def)
  have h: "k < length (sections m)
        \<and> (\<forall>j \<in> set (issues r). original_text j = []
               \<or> \<not> py_contains (original_text j) (content (sections m ! k)))
        \<longrightarrow> sections (apply_patches m r) ! k = sections m ! k"
    by (simp add: apply_patches_def patch_section_no_match)
  from a b c d e f g h show ?thesis by blast
qed


theorem apply_patches_spec_witness:
  "first_occurrence ''2019'' ''2019 and 2019'' '''' '' and 2019''
   \<and> apply_issue ''2019 and 2019'' issue_2019 = ''2020 and 2019''
   \<and> sections (apply_patches manuscript_2019 \<lparr>issues = [issue_2019]\<rparr>) ! 1
       = \<lparr>name = ''Conclusion'', content = ''The end''\<rparr>
   \<and> apply_patches manuscript_2019 \<lparr>issues = []\<rparr> = manuscript_2019"
proof -
  have fo: "first_occurrence ''2019'' ''2019 and 2019'' '''' '' and 2019''"
    by code_simp
  have nm: "\<forall>j \<in> set (issues \<lparr>issues = [issue_2019]\<rparr>). original_text j = []
               \<or> \<not> py_contains (original_text j) (content (sections manuscript_2019 ! 1))"
    by code_simp
  have len: "1 < length (sections manuscript_2019)"
    by (simp add: manuscript_2019_def)
  have ne: "original_text issue_2019 \<noteq> []"
    by (simp add: issue_2019_def)
  have nth: "sections manuscript_2019 ! 1 = \<lparr>name = ''Conclusion'', content = ''The end''\<rparr>"
    by (simp add: manuscript_2019_def)
  have ot: "original_text issue_2019 = ''2019''" "corrected_text issue_2019 = ''2020''"
    by (simp_all add: issue_2019_def)
  show ?thesis
    using apply_patches_spec [where m = manuscript_2019 and r = "\<lparr>issues = [issue_2019]\<rparr>"
        and i = issue_2019 and c = "''2019 and 2019''" and pre = "''''" and post = "'' and 2019''"
        and k = 1]
      apply_patches_spec [where m = manuscript_2019 and r = "\<lparr>issues = []\<rparr>"
        and i = issue_2019 and c = "''2019 and 2019''" and pre = "''''" and post = "'' and 2019''"
        and k = 1]
      fo nm len ne nth
    by (simp add: ot)
qed

text \<open>
  Claim C1 as stated fails on an empty \<open>original_text\<close>: it occurs in every content (at
  the very start), yet the content is returned as it is, not with \<open>corrected_text\<close> put
  in front.
\<close>

theorem apply_patches_empty_original_counterexample:
  "''abc'' = '''' @ original_text issue_empty @ ''abc''
   \<and> py_contains (original_text issue_empty) ''abc''
   \<and> map content (sections (apply_patches
         \<lparr>pm_title = ''T'', sections = [\<lparr>name = ''Introduction'', content = ''abc''\<rparr>]\<rparr>
         \<lparr>issues = [issue_empty]\<rparr>))
       \<noteq> ['''' @ corrected_text issue_empty @ ''abc'']"
  by (simp add: issue_empty_def apply_patches_def patch_section_def apply_issue_def)

text \<open>
  Claim C2, as amended: applying the same report a second time changes nothing provided
  that, after the first application, no section contains the non-empty
  \<open>original_text\<close> of any issue of the report.
\<close>

theorem apply_patches_twice:
  assumes "\<forall>s \<in> set (sections (apply_patches m r)). \<forall>i \<in> set (issues r).
             original_text i = [] \<or> \<not> py_contains (original_text i) (content s)"
  shows "apply_patches (apply_patches m r) r = apply_patches m r"
proof (cases "issues r = []")
  case True
  then show ?thesis by (simp add: apply_patches_def)
next
  case False
  have "map (patch_section (issues r)) (sections (apply_patches m r)) = sections (apply_patches m r)"
    using assms by (simp add: map_idI patch_section_no_match)
  then show ?thesis
    using False by (simp add: apply_patches_def)
qed

text \<open>
  Claim C2 as stated fails when the text occurs twice: the first application patches the
  first occurrence, the second application the second one.
\<close>

theorem apply_patches_twice_counterexample:
  "issues \<lparr>issues = [issue_2019]\<rparr> \<noteq> []
   \<and> apply_patches (apply_patches manuscript_2019 \<lparr>issues = [issue_2019]\<rparr>) \<lparr>issues = [issue_2019]\<rparr>
       \<noteq> apply_patches manuscript_2019 \<lparr>issues = [issue_2019]\<rparr>"
  by (simp add: issue_2019_def manuscript_2019_def apply_patches_def patch_section_def apply_issue_def)

theorem apply_patches_twice_witness:
  "apply_patches (apply_patches manuscript_once \<lparr>issues = [issue_2019]\<rparr>) \<lparr>issues = [issue_2019]\<rparr>
     = \<lparr>pm_title = ''History'', sections =
         [\<lparr>name = ''Introduction'', content = ''Founded in 2020.''\<rparr>,
          \<lparr>name = ''Conclusion'', content = ''The end''\<rparr>]\<rparr>"
proof -
  have once: "apply_patches manuscript_once \<lparr>issues = [issue_2019]\<rparr>
     = \<lparr>pm_title = ''History'', sections =
         [\<lparr>name = ''Introduction'', content = ''Founded in 2020.''\<rparr>,
          \<lparr>name = ''Conclusion'', content = ''The end''\<rparr>]\<rparr>"
    by code_simp
  have gone: "\<forall>s \<in> set (sections (apply_patches manuscript_once \<lparr>issues = [issue_2019]\<rparr>)).
      \<forall>i \<in> set (issues \<lparr>issues = [issue_2019]\<rparr>).
             original_text i = [] \<or> \<not> py_contains (original_text i) (content s)"
    by code_simp
  show ?thesis
    using apply_patches_twice [OF gone] once by simp
qed

subsection \<open>Slide extraction\<close>

lemma numbered_from_nth:
  "numbered_from k ns \<longleftrightarrow> (\<forall>i < length ns. ns ! i = k + int i)"
proof (induction ns arbitrary: k)
  case Nil
  then show ?case by simp
next
  case (Cons n ns)
  show ?case
  proof
    assume a: "numbered_from k (n # ns)"
    then have n: "n = k" and r: "\<forall>i < length ns. ns ! i = k + 1 + int i"
      using Cons.IH [of "k + 1"] by simp_all
    show "\<forall>i < length (n # ns). (n # ns) ! i = k + int i"
    proof (intro allI impI)
      fix i assume "i < length (n # ns)"
      then show "(n # ns) ! i = k + int i"
        using n r by (cases i) auto
    qed
  next
    assume a: "\<forall>i < length (n # ns). (n # ns) ! i = k + int i"
    then have "n = k" by auto
    moreover have "\<forall>i < length ns. ns ! i = k + 1 + int i"
    proof (intro allI impI)
      fix i assume "i < length ns"
      then have "(n # ns) ! Suc i = k + int (Suc i)" using a by (metis Suc_less_eq length_Cons)
      then show "ns ! i = k + 1 + int i" by simp
    qed
    ultimately show "numbered_from k (n # ns)"
      using Cons.IH [of "k + 1"] by simp
  qed
qed

lemma numbered_from_distinct: "numbered_from k ns \<Longrightarrow> distinct ns"
proof (induction ns arbitrary: k)
  case Nil
  then show ?case by simp
next
  case (Cons n ns)
  then have r: "numbered_from (k + 1) ns" and n: "n = k" by simp_all
  have "n \<notin> set ns"
  proof
    assume "n \<in> set ns"
    then obtain i where "i < length ns" "ns ! i = n" by (auto simp: in_set_conv_nth)
    with r n show False by (auto simp: numbered_from_nth)
  qed
  with Cons.IH [OF r] show ?case by simp
qed

text \<open>
  Claim C6, as amended: \<open>generate\<close> returns the service's slides in the service's
  order, each with the \<open>slide_number\<close> the service gave it and nothing renumbered; a
  list the schema accepts stays one. So the numbers of the returned slides are 1, 2,
  3, ... in emission order, and then distinct, exactly when the service's numbers are.
\<close>

theorem generate_slide_numbers:
  assumes "generate (Inr result) = Inr out"
  shows "length out = length (slides result)
         \<and> map sc_slide_number out = map sc_slide_number (slides result)
         \<and> list_all valid_slide out = list_all valid_slide (slides result)
         \<and> numbered_from 1 (map sc_slide_number out)
             = numbered_from 1 (map sc_slide_number (slides result))
         \<and> (numbered_from 1 (map sc_slide_number (slides result))
              \<longrightarrow> distinct (map sc_slide_number out)
                  \<and> (\<forall>i < length out. sc_slide_number (out ! i) = int i + 1))"
proof -
  from assms have out: "out = map (\<lambda>s. \<lparr>sc_slide_number = sc_slide_number s, sc_title = sc_title s,
                          sc_bullet_points = sc_bullet_points s, sc_speaker_notes = [],
                          sc_image_query = sc_image_query s\<rparr>) (slides result)"
    by (simp add: generate_def)
  have len: "length out = length (slides result)" by (simp add: out)
  have nums: "map sc_slide_number out = map sc_slide_number (slides result)"
    by (simp add: out comp_def)
  have val: "list_all valid_slide out = list_all valid_slide (slides result)"
    by (simp add: out list_all_iff valid_slide_def)
  have "numbered_from 1 (map sc_slide_number out)
        \<longrightarrow> distinct (map sc_slide_number out)
            \<and> (\<forall>i < length out. sc_slide_number (out ! i) = int i + 1)"
    using numbered_from_distinct [of 1 "map sc_slide_number out"]
      numbered_from_nth [of 1 "map sc_slide_number out"] by auto
  with len nums val show ?thesis by simp
qed

theorem generate_slide_numbers_witness:
  "generate (Inr answer_1_2)
     = Inr [\<lparr>sc_slide_number = 1, sc_title = ''Welcome'', sc_bullet_points = [''a''],
             sc_speaker_notes = '''', sc_image_query = None\<rparr>,
            \<lparr>sc_slide_number = 2, sc_title = ''Robots'', sc_bullet_points = [''b'', ''c''],
             sc_speaker_notes = '''', sc_image_query = Some ''robot arm''\<rparr>]
   \<and> numbered_from 1 (map sc_slide_number (slides answer_1_2))
   \<and> distinct (map sc_slide_number
        [\<lparr>sc_slide_number = 1, sc_title = ''Welcome'', sc_bullet_points = [''a''],
             sc_speaker_notes = '''', sc_image_query = None\<rparr>,
            \<lparr>sc_slide_number = 2, sc_title = ''Robots'', sc_bullet_points = [''b'', ''c''],
             sc_speaker_notes = '''', sc_image_query = Some ''robot arm''\<rparr>])"
proof -
  have g: "generate (Inr answer_1_2)
     = Inr [\<lparr>sc_slide_number = 1, sc_title = ''Welcome'', sc_bullet_points = [''a''],
             sc_speaker_notes = '''', sc_image_query = None\<rparr>,
            \<lparr>sc_slide_number = 2, sc_title = ''Robots'', sc_bullet_points = [''b'', ''c''],
             sc_speaker_notes = '''', sc_image_query = Some ''robot arm''\<rparr>]"
    by (simp add: generate_def answer_1_2_def)
  have n: "numbered_from 1 (map sc_slide_number (slides answer_1_2))"
    by (simp add: answer_1_2_def)
  show ?thesis
    using generate_slide_numbers [OF g] n g by (simp add: answer_1_2_def)
qed

text \<open>
  Claim C6 as stated fails on an answer of the service that the schema accepts (every
  \<open>slide_number\<close> at least 1) and that numbers both of its slides 2: the returned
  numbers are neither distinct nor counted from 1.
\<close>

theorem generate_slide_numbers_counterexample:
  "list_all valid_slide (slides answer_2_2)
   \<and> map_sum id (map sc_slide_number) (generate (Inr answer_2_2)) = Inr [2, 2]
   \<and> \<not> distinct [2, 2 :: int]
   \<and> \<not> numbered_from 1 [2, 2]"
  by (simp add: generate_def answer_2_2_def valid_slide_def)

subsection \<open>Review gate\<close>

text \<open>
  Claim C7. With a score of 8 or more, \<open>review_and_improve\<close> returns the manuscript it
  was given with that score, after the one evaluation. When the evaluation raises, or
  the rewrite raises, it returns the manuscript it was given with score 0. A rewrite is
  called only after an evaluation with a score below 8, at most once, and its result is
  returned with the evaluation's score: nothing is evaluated a second time.
\<close>

theorem review_and_improve_spec:
  "(evaluate m = Inr ev \<and> score ev \<ge> 8
      \<longrightarrow> review_and_improve evaluate rewrite m = ((m, score ev), [EvaluateCall]))
   \<and> (evaluate m = Inl e
      \<longrightarrow> review_and_improve evaluate rewrite m = ((m, 0), [EvaluateCall]))
   \<and> (evaluate m = Inr ev \<and> score ev < 8 \<and> rewrite m ev = Inl e
      \<longrightarrow> fst (review_and_improve evaluate rewrite m) = (m, 0))
   \<and> (evaluate m = Inr ev \<and> score ev < 8 \<and> rewrite m ev = Inr improved
      \<longrightarrow> review_and_improve evaluate rewrite m
            = ((improved, score ev), [EvaluateCall, PrintImproving, RewriteCall]))
   \<and> (RewriteCall \<in> set (snd (review_and_improve evaluate rewrite m))
      \<longrightarrow> (\<exists>ev'. evaluate m = Inr ev' \<and> score ev' < 8))
   \<and> count_list (snd (review_and_improve evaluate rewrite m)) EvaluateCall = 1
   \<and> count_list (snd (review_and_improve evaluate rewrite m)) RewriteCall \<le> 1"
  by (auto simp: review_and_improve_def split: sum.splits)

theorem review_and_improve_spec_witness:
  "review_and_improve (\<lambda>_. Inr (evaluation_of 9)) (\<lambda>_ _. Inr manuscript_once) manuscript_2019
     = ((manuscript_2019, 9), [EvaluateCall])
   \<and> review_and_improve (\<lambda>_. Inl (OtherError ''timeout'')) (\<lambda>_ _. Inr manuscript_once) manuscript_2019
     = ((manuscript_2019, 0), [EvaluateCall])
   \<and> fst (review_and_improve (\<lambda>_. Inr (evaluation_of 5)) (\<lambda>_ _. Inl (OtherError ''bad JSON''))
        manuscript_2019) = (manuscript_2019, 0)
   \<and> review_and_improve (\<lambda>_. Inr (evaluation_of 7)) (\<lambda>_ _. Inr manuscript_once) manuscript_2019
     = ((manuscript_once, 7), [EvaluateCall, PrintImproving, RewriteCall])"
  using review_and_improve_spec [where evaluate = "\<lambda>_. Inr (evaluation_of 9)"
      and rewrite = "\<lambda>_ _. Inr manuscript_once" and m = manuscript_2019 and ev = "evaluation_of 9"
      and e = "OtherError ''timeout''" and improved = manuscript_once]
    review_and_improve_spec [where evaluate = "\<lambda>_. Inl (OtherError ''timeout'')"
      and rewrite = "\<lambda>_ _. Inr manuscript_once" and m = manuscript_2019 and ev = "evaluation_of 9"
      and e = "OtherError ''timeout''" and improved = manuscript_once]
    review_and_improve_spec [where evaluate = "\<lambda>_. Inr (evaluation_of 5)"
      and rewrite = "\<lambda>_ _. Inl (OtherError ''bad JSON'')" and m = manuscript_2019
      and ev = "evaluation_of 5" and e = "OtherError ''bad JSON''" and improved = manuscript_once]
    review_and_improve_spec [where evaluate = "\<lambda>_. Inr (evaluation_of 7)"
      and rewrite = "\<lambda>_ _. Inr manuscript_once" and m = manuscript_2019 and ev = "evaluation_of 7"
      and e = "OtherError ''timeout''" and improved = manuscript_once]
  by (simp add: evaluation_of_def)

subsection \<open>Image enrichment\<close>

lemma enrich_as_map:
  "enrich_slides_with_images svc ss
     = map (\<lambda>(i, s). with_image s (slide_image svc i s)) (List.enumerate 0 ss)"
  by (simp add: enrich_slides_with_images_def process_slide_def)

lemma enrich_length: "length (enrich_slides_with_images svc ss) = length ss"
  by (simp add: enrich_as_map)

lemma enrich_nth:
  assumes "i < length ss"
  shows "enrich_slides_with_images svc ss ! i = with_image (ss ! i) (slide_image svc i (ss ! i))"
  using assms by (simp add: enrich_as_map nth_enumerate_eq)

lemma fetch_same_service:
  assumes "same_service_for i svc svc'"
  shows "fetch_image_for_query svc' i q t c p = fetch_image_for_query svc i q t c p"
proof -
  from assms have eq: "candidates_per_query svc' = candidates_per_query svc"
      "search svc' i = search svc i"
      "map_option (\<lambda>f. f i) (vision svc') = map_option (\<lambda>f. f i) (vision svc)"
    by (simp_all add: same_service_for_def)
  show ?thesis
    unfolding fetch_image_for_query_def eq ..
qed

lemma slide_image_same_service:
  assumes "same_service_for i svc svc'"
  shows "slide_image svc' i s = slide_image svc i s"
  by (simp add: slide_image_def fetch_same_service [OF assms])

lemma fetch_search_error:
  assumes "search svc i q (candidates_per_query svc) = Inl e"
  shows "\<exists>e'. fetch_image_for_query svc i q t c p = Inl e'"
  using assms by (cases e) (simp_all add: fetch_image_for_query_def)

lemma fetch_no_candidates:
  assumes "search svc i q (candidates_per_query svc) = Inr rs"
    and "parse_candidates (take 3 rs) = []"
  shows "fetch_image_for_query svc i q t c p = Inr None"
  using assms by (simp add: fetch_image_for_query_def Let_def)

text \<open>
  Claim C10. \<open>enrich_slides_with_images\<close> returns as many slides as it was given, in
  the same order, and each returned slide has the \<open>slide_number\<close>, \<open>title\<close>,
  \<open>bullet_points\<close>, \<open>speaker_notes\<close> and \<open>image_query\<close> of the input slide at its
  position: only \<open>image_url\<close> is new.
\<close>

theorem enrich_frame:
  "length (enrich_slides_with_images svc ss) = length ss
   \<and> map (\<lambda>r. (slide_number r, title r, bullet_points r, speaker_notes r, image_query r))
        (enrich_slides_with_images svc ss)
     = map (\<lambda>s. (sc_slide_number s, sc_title s, sc_bullet_points s, sc_speaker_notes s,
                  sc_image_query s)) ss"
proof -
  have "map (\<lambda>r. (slide_number r, title r, bullet_points r, speaker_notes r, image_query r))
        (enrich_slides_with_images svc ss)
     = map ((\<lambda>s. (sc_slide_number s, sc_title s, sc_bullet_points s, sc_speaker_notes s,
                  sc_image_query s)) \<circ> snd) (List.enumerate 0 ss)"
    by (simp add: enrich_as_map with_image_def split_def comp_def)
  also have "\<dots> = map (\<lambda>s. (sc_slide_number s, sc_title s, sc_bullet_points s, sc_speaker_notes s,
                  sc_image_query s)) ss"
    by (simp only: map_map [symmetric] map_snd_enumerate)
  finally show ?thesis by (simp add: enrich_length)
qed

lemma py_max_in_set: "py_max key best xs \<in> set (best # xs)"
  by (induction xs arbitrary: best) auto

lemma select_best_by_vision_scored:
  assumes "evs \<noteq> []"
  shows "\<exists>c ev. (c, ev) \<in> set evs \<and> select_best_by_vision cands evs p = Some (url c)"
proof -
  obtain e es where evs: "evs = e # es" using assms by (cases evs) auto
  have "py_max (vision_key p) e es \<in> set evs"
    unfolding evs by (rule py_max_in_set)
  then show ?thesis
    by (metis evs list.simps(5) prod.collapse select_best_by_vision_def)
qed

lemma evaluations_eq:
  "List.map_filter (\<lambda>c. map_option (Pair c) (evaluate_candidate (Some g) c t x)) cs
     = List.map_filter (\<lambda>c. case g (url c) t x of Inl e \<Rightarrow> None | Inr ev \<Rightarrow> Some (c, ev)) cs"
proof -
  have "map_option (Pair c) (evaluate_candidate (Some g) c t x)
          = (case g (url c) t x of Inl e \<Rightarrow> None | Inr ev \<Rightarrow> Some (c, ev))" for c
    by (simp add: evaluate_candidate_def split: sum.splits)
  then show ?thesis by simp
qed

lemma slide_context_join:
  "slide_context s = py_join '' | '' (take 3 (sc_bullet_points s))"
  by (simp add: slide_context_def)

lemma no_evaluations_candidates:
  assumes "llm = None \<or> (\<exists>g. llm = Some g \<and> (\<forall>c \<in> set cs. isl (g (url c) t x)))"
  shows "List.map_filter (\<lambda>c. map_option (Pair c) (evaluate_candidate llm c t x)) cs = []"
proof -
  have "evaluate_candidate llm c t x = None" if "c \<in> set cs" for c
  proof (cases llm)
    case None
    then show ?thesis by (simp add: evaluate_candidate_def)
  next
    case (Some g)
    with assms that have "isl (g (url c) t x)" by auto
    then obtain e where "g (url c) t x = Inl e" by (auto simp: isl_def)
    with Some show ?thesis by (simp add: evaluate_candidate_def)
  qed
  then have "filter (\<lambda>c. map_option (Pair c) (evaluate_candidate llm c t x) \<noteq> None) cs = []"
    by (simp add: filter_empty_conv)
  then show ?thesis by (simp add: List.map_filter_def)
qed

lemma fetch_unscored:
  assumes "search svc i q (candidates_per_query svc) = Inr rs"
    and "parse_candidates (take 3 rs) \<noteq> []"
    and "vision svc = None \<or> (\<exists>f. vision svc = Some f
           \<and> (\<forall>c \<in> set (parse_candidates (take 3 rs)).
                 isl (f i (url c) (if t \<noteq> [] then t else q)
                        (if x \<noteq> [] then x else ''Search: '' @ q))))"
  shows "fetch_image_for_query svc i q t x p = Inr (metadata_select_best (take 3 rs))"
proof -
  let ?tp = "if t \<noteq> [] then t else q"
  let ?cx = "if x \<noteq> [] then x else ''Search: '' @ q"
  have "map_option (\<lambda>f. f i) (vision svc) = None
        \<or> (\<exists>g. map_option (\<lambda>f. f i) (vision svc) = Some g
              \<and> (\<forall>c \<in> set (parse_candidates (take 3 rs)). isl (g (url c) ?tp ?cx)))"
    using assms(3) by auto
  from no_evaluations_candidates [OF this]
  have ne: "List.map_filter (\<lambda>c. map_option (Pair c)
              (evaluate_candidate (map_option (\<lambda>f. f i) (vision svc)) c ?tp ?cx))
              (parse_candidates (take 3 rs)) = []" .
  have nr: "take 3 rs \<noteq> []"
    using assms(2) by (auto simp: parse_candidates_def)
  show ?thesis
    unfolding fetch_image_for_query_def Let_def assms(1) using assms(2) nr ne
    by (simp del: take_eq_Nil)
qed

lemma fetch_scored:
  assumes "search svc i q (candidates_per_query svc) = Inr rs"
    and "vision svc = Some f"
    and "c \<in> set (parse_candidates (take 3 rs))"
    and "f i (url c) (if t \<noteq> [] then t else q) (if x \<noteq> [] then x else ''Search: '' @ q)
           = Inr ev"
  shows "fetch_image_for_query svc i q t x p
           = Inr (select_best_by_vision (parse_candidates (take 3 rs))
                    (List.map_filter
                       (\<lambda>c'. case f i (url c') (if t \<noteq> [] then t else q)
                                     (if x \<noteq> [] then x else ''Search: '' @ q) of
                               Inl e \<Rightarrow> None | Inr ev' \<Rightarrow> Some (c', ev'))
                       (parse_candidates (take 3 rs))) p)"
    and "List.map_filter
           (\<lambda>c'. case f i (url c') (if t \<noteq> [] then t else q)
                         (if x \<noteq> [] then x else ''Search: '' @ q) of
                   Inl e \<Rightarrow> None | Inr ev' \<Rightarrow> Some (c', ev'))
           (parse_candidates (take 3 rs)) \<noteq> []"
proof -
  let ?tp = "if t \<noteq> [] then t else q"
  let ?cx = "if x \<noteq> [] then x else ''Search: '' @ q"
  let ?evs = "List.map_filter
           (\<lambda>c'. case f i (url c') ?tp ?cx of Inl e \<Rightarrow> None | Inr ev' \<Rightarrow> Some (c', ev'))
           (parse_candidates (take 3 rs))"
  have "(c, ev) \<in> set ?evs"
    using assms(3,4) by (auto simp: List.map_filter_def image_iff intro!: bexI [of _ c])
  then show ne: "?evs \<noteq> []" by auto
  have cs: "parse_candidates (take 3 rs) \<noteq> []" using assms(3) by auto
  then have nr: "take 3 rs \<noteq> []" by (auto simp: parse_candidates_def)
  have ev: "List.map_filter (\<lambda>c. map_option (Pair c)
              (evaluate_candidate (Some (f i)) c ?tp ?cx)) (parse_candidates (take 3 rs)) = ?evs"
    by (rule evaluations_eq)
  show "fetch_image_for_query svc i q t x p
           = Inr (select_best_by_vision (parse_candidates (take 3 rs)) ?evs p)"
    unfolding fetch_image_for_query_def Let_def assms(1) assms(2) using cs nr ne
    by (simp add: ev del: take_eq_Nil)
qed

lemma enrich_image_url:
  assumes "i < length ss"
  shows "image_url (enrich_slides_with_images svc ss ! i) = slide_image svc i (ss ! i)"
  by (simp add: enrich_nth [OF assms] with_image_def)

lemma enrich_entry:
  assumes "i < length ss"
  shows "enrich_slides_with_images svc ss ! i
       = \<lparr>slide_number = sc_slide_number (ss ! i), title = sc_title (ss ! i),
          bullet_points = sc_bullet_points (ss ! i), speaker_notes = sc_speaker_notes (ss ! i),
          image_url = slide_image svc i (ss ! i),
          image_query = sc_image_query (ss ! i)\<rparr>"
  by (simp add: enrich_nth [OF assms] with_image_def)

lemma py_strip_Nil: "py_strip [] = []"
  by (simp add: py_strip_def)

lemma slide_image_query:
  assumes "sc_image_query s = Some q0" and "py_strip q0 \<noteq> []"
  shows "slide_image svc i s
      = (case fetch_image_for_query svc i (py_strip q0) (sc_title s)
                (py_join '' | '' (take 3 (sc_bullet_points s))) (i = 0) of
           Inl e \<Rightarrow> None | Inr v \<Rightarrow> v)"
proof -
  have "q0 \<noteq> []" using assms(2) py_strip_Nil by blast
  then have "has_image_query s" using assms by (simp add: has_image_query_def)
  then show ?thesis
    unfolding slide_image_def slide_context_join using assms(1) by simp
qed

lemma slide_image_no_query:
  assumes "case sc_image_query s of None \<Rightarrow> True | Some q0 \<Rightarrow> py_strip q0 = []"
  shows "slide_image svc i s = None"
proof -
  have "\<not> has_image_query s"
    using assms by (cases "sc_image_query s") (simp_all add: has_image_query_def)
  then show ?thesis by (simp add: slide_image_def)
qed

lemma slide_image_search_error:
  assumes "sc_image_query s = Some q0" and "py_strip q0 \<noteq> []"
    and "search svc i (py_strip q0) (candidates_per_query svc) = Inl e"
  shows "slide_image svc i s = None"
proof -
  obtain e' where "fetch_image_for_query svc i (py_strip q0) (sc_title s)
                (py_join '' | '' (take 3 (sc_bullet_points s))) (i = 0) = Inl e'"
    using fetch_search_error [OF assms(3)] by blast
  then show ?thesis
    unfolding slide_image_query [OF assms(1,2)] by simp
qed

lemma slide_image_no_candidates:
  assumes "sc_image_query s = Some q0" and "py_strip q0 \<noteq> []"
    and "search svc i (py_strip q0) (candidates_per_query svc) = Inr rs"
    and "parse_candidates (take 3 rs) = []"
  shows "slide_image svc i s = None"
  unfolding slide_image_query [OF assms(1,2)] fetch_no_candidates [OF assms(3,4)] by simp

lemma slide_image_unscored:
  assumes "sc_image_query s = Some q0" and "py_strip q0 \<noteq> []"
    and "search svc i (py_strip q0) (candidates_per_query svc) = Inr rs"
    and "parse_candidates (take 3 rs) \<noteq> []"
    and "tp = (if sc_title s \<noteq> [] then sc_title s else py_strip q0)"
    and "cx = (if py_join '' | '' (take 3 (sc_bullet_points s)) \<noteq> []
               then py_join '' | '' (take 3 (sc_bullet_points s))
               else ''Search: '' @ py_strip q0)"
    and "vision svc = None
         \<or> (\<exists>g. vision svc = Some g
               \<and> (\<forall>c \<in> set (parse_candidates (take 3 rs)). isl (g i (url c) tp cx)))"
  shows "slide_image svc i s = metadata_select_best (take 3 rs)"
proof -
  have "fetch_image_for_query svc i (py_strip q0) (sc_title s)
          (py_join '' | '' (take 3 (sc_bullet_points s))) (i = 0)
            = Inr (metadata_select_best (take 3 rs))"
    using assms(7) unfolding assms(5) assms(6) by (rule fetch_unscored [OF assms(3) assms(4)])
  then show ?thesis
    unfolding slide_image_query [OF assms(1,2)] by simp
qed

lemma scored_members:
  assumes "(c', ev') \<in> set (List.map_filter
             (\<lambda>c. case g (url c) of Inl e \<Rightarrow> None | Inr ev \<Rightarrow> Some (c, ev)) cs)"
  shows "c' \<in> set cs \<and> g (url c') = Inr ev'"
proof -
  from assms obtain c where c: "c \<in> set cs"
    and s: "(case g (url c) of Inl e \<Rightarrow> None | Inr ev \<Rightarrow> Some (c, ev)) = Some (c', ev')"
    unfolding List.map_filter_def by force
  from s show ?thesis using c by (cases "g (url c)") simp_all
qed

lemma slide_image_scored:
  assumes "sc_image_query s = Some q0" and "py_strip q0 \<noteq> []"
    and "search svc i (py_strip q0) (candidates_per_query svc) = Inr rs"
    and "tp = (if sc_title s \<noteq> [] then sc_title s else py_strip q0)"
    and "cx = (if py_join '' | '' (take 3 (sc_bullet_points s)) \<noteq> []
               then py_join '' | '' (take 3 (sc_bullet_points s))
               else ''Search: '' @ py_strip q0)"
    and "vision svc = Some f"
    and "c \<in> set (parse_candidates (take 3 rs))"
    and "f i (url c) tp cx = Inr ev"
  shows "slide_image svc i s
           = select_best_by_vision (parse_candidates (take 3 rs))
               (List.map_filter
                  (\<lambda>c'. case f i (url c') tp cx of Inl e' \<Rightarrow> None | Inr ev' \<Rightarrow> Some (c', ev'))
                  (parse_candidates (take 3 rs)))
               (i = 0)"
    and "\<exists>c' ev'. c' \<in> set (parse_candidates (take 3 rs))
           \<and> f i (url c') tp cx = Inr ev'
           \<and> slide_image svc i s = Some (url c')"
proof -
  let ?evs = "List.map_filter
                (\<lambda>c'. case f i (url c') tp cx of Inl e' \<Rightarrow> None | Inr ev' \<Rightarrow> Some (c', ev'))
                (parse_candidates (take 3 rs))"
  note fs = fetch_scored [OF assms(3) assms(6) assms(7) assms(8) [unfolded assms(4) assms(5)],
      folded assms(4) assms(5)]
  have "fetch_image_for_query svc i (py_strip q0) (sc_title s)
          (py_join '' | '' (take 3 (sc_bullet_points s))) (i = 0)
            = Inr (select_best_by_vision (parse_candidates (take 3 rs)) ?evs (i = 0))"
    by (rule fs(1))
  then show r: "slide_image svc i s
                  = select_best_by_vision (parse_candidates (take 3 rs)) ?evs (i = 0)"
    unfolding slide_image_query [OF assms(1,2)] by simp
  obtain c' ev' where m: "(c', ev') \<in> set ?evs"
    and b: "select_best_by_vision (parse_candidates (take 3 rs)) ?evs (i = 0) = Some (url c')"
    using select_best_by_vision_scored [OF fs(2)] by blast
  from scored_members [OF m]
  have "c' \<in> set (parse_candidates (take 3 rs)) \<and> f i (url c') tp cx = Inr ev'" .
  with r b show "\<exists>c' ev'. c' \<in> set (parse_candidates (take 3 rs))
           \<and> f i (url c') tp cx = Inr ev'
           \<and> slide_image svc i s = Some (url c')"
    by (intro exI [of _ c'] exI [of _ ev']) simp
qed

lemma enrich_same_service:
  assumes "i < length ss"
    and "candidates_per_query svc' = candidates_per_query svc"
    and "search svc' i = search svc i"
    and "map_option (\<lambda>h. h i) (vision svc') = map_option (\<lambda>h. h i) (vision svc)"
  shows "enrich_slides_with_images svc' ss ! i = enrich_slides_with_images svc ss ! i"
proof -
  have "same_service_for i svc svc'"
    using assms(2-4) by (simp add: same_service_for_def)
  from slide_image_same_service [OF this]
  have "slide_image svc' i (ss ! i) = slide_image svc i (ss ! i)" .
  then show ?thesis
    unfolding enrich_nth [OF assms(1)] by simp
qed

text \<open>
  Claim C8, as amended: an evaluation error does not fail a slide. The result has an
  entry for every input slide, which is that slide with some \<open>image_url\<close>. A slide
  without an image query (none, or blank), a slide whose search raises and a slide whose
  search finds no usable candidate get \<open>image_url = None\<close>. A candidate whose evaluation
  raises goes unscored: when there is no vision client, or the evaluation of every
  candidate of the slide raises, the image is the one the metadata selection picks; when
  some candidate of the slide is scored, the image is the vision choice among the scored
  candidates, the \<open>url\<close> of one of them. The entry of a slide depends on the calls of its
  own task only: a service that answers those alike, whatever it does for the other
  slides, gives the same entry.
\<close>

theorem enrich_isolates_failures:
  assumes "i < length ss"
  shows "length (enrich_slides_with_images svc ss) = length ss
   \<and> enrich_slides_with_images svc ss ! i
       = \<lparr>slide_number = sc_slide_number (ss ! i), title = sc_title (ss ! i),
          bullet_points = sc_bullet_points (ss ! i), speaker_notes = sc_speaker_notes (ss ! i),
          image_url = image_url (enrich_slides_with_images svc ss ! i),
          image_query = sc_image_query (ss ! i)\<rparr>
   \<and> ((case sc_image_query (ss ! i) of None \<Rightarrow> True | Some qry \<Rightarrow> py_strip qry = [])
        \<longrightarrow> image_url (enrich_slides_with_images svc ss ! i) = None)
   \<and> (sc_image_query (ss ! i) = Some qry \<and> py_strip qry \<noteq> []
        \<and> search svc i (py_strip qry) (candidates_per_query svc) = Inl e
        \<longrightarrow> image_url (enrich_slides_with_images svc ss ! i) = None)
   \<and> (sc_image_query (ss ! i) = Some qry \<and> py_strip qry \<noteq> []
        \<and> search svc i (py_strip qry) (candidates_per_query svc) = Inr rs
        \<and> parse_candidates (take 3 rs) = []
        \<longrightarrow> image_url (enrich_slides_with_images svc ss ! i) = None)
   \<and> (sc_image_query (ss ! i) = Some qry \<and> py_strip qry \<noteq> []
        \<and> search svc i (py_strip qry) (candidates_per_query svc) = Inr rs
        \<and> parse_candidates (take 3 rs) \<noteq> []
        \<and> tp = (if sc_title (ss ! i) \<noteq> [] then sc_title (ss ! i) else py_strip qry)
        \<and> cx = (if py_join '' | '' (take 3 (sc_bullet_points (ss ! i))) \<noteq> []
                 then py_join '' | '' (take 3 (sc_bullet_points (ss ! i)))
                 else ''Search: '' @ py_strip qry)
        \<and> (vision svc = None
             \<or> (\<exists>g. vision svc = Some g
                   \<and> (\<forall>c \<in> set (parse_candidates (take 3 rs)). isl (g i (url c) tp cx))))
        \<longrightarrow> image_url (enrich_slides_with_images svc ss ! i) = metadata_select_best (take 3 rs))
   \<and> (sc_image_query (ss ! i) = Some qry \<and> py_strip qry \<noteq> []
        \<and> search svc i (py_strip qry) (candidates_per_query svc) = Inr rs
        \<and> tp = (if sc_title (ss ! i) \<noteq> [] then sc_title (ss ! i) else py_strip qry)
        \<and> cx = (if py_join '' | '' (take 3 (sc_bullet_points (ss ! i))) \<noteq> []
                 then py_join '' | '' (take 3 (sc_bullet_points (ss ! i)))
                 else ''Search: '' @ py_strip qry)
        \<and> vision svc = Some f
        \<and> c \<in> set (parse_candidates (take 3 rs)) \<and> f i (url c) tp cx = Inr ev
        \<longrightarrow> image_url (enrich_slides_with_images svc ss ! i)
              = select_best_by_vision (parse_candidates (take 3 rs))
                  (List.map_filter
                     (\<lambda>c'. case f i (url c') tp cx of
                             Inl e' \<Rightarrow> None | Inr ev' \<Rightarrow> Some (c', ev'))
                     (parse_candidates (take 3 rs)))
                  (i = 0)
            \<and> (\<exists>c' ev'. c' \<in> set (parse_candidates (take 3 rs))
                  \<and> f i (url c') tp cx = Inr ev'
                  \<and> image_url (enrich_slides_with_images svc ss ! i) = Some (url c')))
   \<and> (candidates_per_query svc' = candidates_per_query svc
        \<and> search svc' i = search svc i
        \<and> map_option (\<lambda>h. h i) (vision svc') = map_option (\<lambda>h. h i) (vision svc)
        \<longrightarrow> enrich_slides_with_images svc' ss ! i = enrich_slides_with_images svc ss ! i)"
proof -
  let ?s = "ss ! i"
  let ?out = "enrich_slides_with_images svc ss ! i"
  let ?j = "py_join '' | '' (take 3 (sc_bullet_points ?s))"
  note u = enrich_image_url [OF assms, of svc]
  have l: "length (enrich_slides_with_images svc ss) = length ss"
    by (rule enrich_length)
  have frame: "?out = \<lparr>slide_number = sc_slide_number ?s, title = sc_title ?s,
          bullet_points = sc_bullet_points ?s, speaker_notes = sc_speaker_notes ?s,
          image_url = image_url ?out, image_query = sc_image_query ?s\<rparr>"
    unfolding u by (rule enrich_entry [OF assms])
  have a: "(case sc_image_query ?s of None \<Rightarrow> True | Some qry \<Rightarrow> py_strip qry = [])
        \<longrightarrow> image_url ?out = None"
    unfolding u by (intro impI) (rule slide_image_no_query)
  have b: "sc_image_query ?s = Some qry \<and> py_strip qry \<noteq> []
        \<and> search svc i (py_strip qry) (candidates_per_query svc) = Inl e
        \<longrightarrow> image_url ?out = None"
    unfolding u by (intro impI, elim conjE) (rule slide_image_search_error)
  have c: "sc_image_query ?s = Some qry \<and> py_strip qry \<noteq> []
        \<and> search svc i (py_strip qry) (candidates_per_query svc) = Inr rs
        \<and> parse_candidates (take 3 rs) = []
        \<longrightarrow> image_url ?out = None"
    unfolding u by (intro impI, elim conjE) (rule slide_image_no_candidates)
  have d: "sc_image_query ?s = Some qry \<and> py_strip qry \<noteq> []
        \<and> search svc i (py_strip qry) (candidates_per_query svc) = Inr rs
        \<and> parse_candidates (take 3 rs) \<noteq> []
        \<and> tp = (if sc_title ?s \<noteq> [] then sc_title ?s else py_strip qry)
        \<and> cx = (if ?j \<noteq> [] then ?j else ''Search: '' @ py_strip qry)
        \<and> (vision svc = None
             \<or> (\<exists>g. vision svc = Some g
                   \<and> (\<forall>c \<in> set (parse_candidates (take 3 rs)). isl (g i (url c) tp cx))))
        \<longrightarrow> image_url ?out = metadata_select_best (take 3 rs)"
    unfolding u by (intro impI, elim conjE) (rule slide_image_unscored)
  have e: "sc_image_query ?s = Some qry \<and> py_strip qry \<noteq> []
        \<and> search svc i (py_strip qry) (candidates_per_query svc) = Inr rs
        \<and> tp = (if sc_title ?s \<noteq> [] then sc_title ?s else py_strip qry)
        \<and> cx = (if ?j \<noteq> [] then ?j else ''Search: '' @ py_strip qry)
        \<and> vision svc = Some f
        \<and> c \<in> set (parse_candidates (take 3 rs)) \<and> f i (url c) tp cx = Inr ev
        \<longrightarrow> image_url ?out
              = select_best_by_vision (parse_candidates (take 3 rs))
                  (List.map_filter
                     (\<lambda>c'. case f i (url c') tp cx of
                             Inl e' \<Rightarrow> None | Inr ev' \<Rightarrow> Some (c', ev'))
                     (parse_candidates (take 3 rs)))
                  (i = 0)
            \<and> (\<exists>c' ev'. c' \<in> set (parse_candidates (take 3 rs))
                  \<and> f i (url c') tp cx = Inr ev'
                  \<and> image_url ?out = Some (url c'))"
    unfolding u
  proof (intro impI, elim conjE, intro conjI)
    assume h: "sc_image_query ?s = Some qry" "py_strip qry \<noteq> []"
      "search svc i (py_strip qry) (candidates_per_query svc) = Inr rs"
      "tp = (if sc_title ?s \<noteq> [] then sc_title ?s else py_strip qry)"
      "cx = (if ?j \<noteq> [] then ?j else ''Search: '' @ py_strip qry)"
      "vision svc = Some f"
      "c \<in> set (parse_candidates (take 3 rs))" "f i (url c) tp cx = Inr ev"
    show "slide_image svc i ?s
              = select_best_by_vision (parse_candidates (take 3 rs))
                  (List.map_filter
                     (\<lambda>c'. case f i (url c') tp cx of
                             Inl e' \<Rightarrow> None | Inr ev' \<Rightarrow> Some (c', ev'))
                     (parse_candidates (take 3 rs)))
                  (i = 0)"
      by (rule slide_image_scored(1) [OF h])
    show "\<exists>c' ev'. c' \<in> set (parse_candidates (take 3 rs))
                  \<and> f i (url c') tp cx = Inr ev'
                  \<and> slide_image svc i ?s = Some (url c')"
      by (rule slide_image_scored(2) [OF h])
  qed
  have g: "candidates_per_query svc' = candidates_per_query svc
        \<and> search svc' i = search svc i
        \<and> map_option (\<lambda>h. h i) (vision svc') = map_option (\<lambda>h. h i) (vision svc)
        \<longrightarrow> enrich_slides_with_images svc' ss ! i = ?out"
    by (intro impI, elim conjE) (rule enrich_same_service [OF assms])
  from l frame a b c d e g show ?thesis
    by (intro conjI)
qed

theorem enrich_isolates_failures_witness:
  "length (enrich_slides_with_images service_search_fails_for_1
             [slide_intro, slide_robots, slide_solar]) = 3
   \<and> image_url (enrich_slides_with_images service_search_fails_for_1
                   [slide_intro, slide_robots, slide_solar] ! 1) = None
   \<and> image_url (enrich_slides_with_images service_search_fails_for_1
                   [slide_intro, slide_robots, slide_solar] ! 2) = Some ''https://img/wide''
   \<and> image_url (enrich_slides_with_images service_vision_fails
                   [slide_intro, slide_robots, slide_solar] ! 1) = Some ''https://img/wide''"
proof -
  let ?ss = "[slide_intro, slide_robots, slide_solar]"
  let ?svc = "service_search_fails_for_1"
  let ?vf = "service_vision_fails"
  have l1: "1 < length ?ss" and l2: "2 < length ?ss"
    by simp_all
  have q1: "sc_image_query (?ss ! 1) = Some ''robot arm''"
    and q2: "sc_image_query (?ss ! 2) = Some '' solar panels ''"
    by (simp_all add: slide_robots_def slide_solar_def)
  have n1: "py_strip ''robot arm'' \<noteq> []" and n2: "py_strip '' solar panels '' \<noteq> []"
    by code_simp+
  have s1: "search ?svc 1 (py_strip ''robot arm'') (candidates_per_query ?svc)
              = Inl (HTTPError ''503'')"
    by (simp add: service_search_fails_for_1_def)
  have s2: "search ?svc 2 (py_strip '' solar panels '') (candidates_per_query ?svc)
              = Inr [photo_wide]"
    by (simp add: service_search_fails_for_1_def)
  have s3: "search ?vf 1 (py_strip ''robot arm'') (candidates_per_query ?vf) = Inr [photo_wide]"
    by (simp add: service_vision_fails_def)
  have c2: "parse_candidates (take 3 [photo_wide]) \<noteq> []"
    by code_simp
  have v2: "vision ?svc = None"
    by (simp add: service_search_fails_for_1_def)
  have v3: "vision ?vf = Some (\<lambda>task u t c. Inl (OtherError ''vision unavailable''))"
    by (simp add: service_vision_fails_def)
  have m2: "metadata_select_best (take 3 [photo_wide]) = Some ''https://img/wide''"
    by code_simp
  note t1 = enrich_isolates_failures [OF l1, where svc = ?svc and qry = "''robot arm''"
      and e = "HTTPError ''503''"]
  from t1 have a: "length (enrich_slides_with_images ?svc ?ss) = length ?ss"
    by (rule conjunct1)
  from t1 [THEN conjunct2, THEN conjunct2, THEN conjunct2, THEN conjunct1] q1 n1 s1
  have b: "image_url (enrich_slides_with_images ?svc ?ss ! 1) = None"
    by blast
  note t2 = enrich_isolates_failures [OF l2, where svc = ?svc and qry = "'' solar panels ''"
      and rs = "[photo_wide]"
      and tp = "if sc_title (?ss ! 2) \<noteq> [] then sc_title (?ss ! 2) else py_strip '' solar panels ''"
      and cx = "if py_join '' | '' (take 3 (sc_bullet_points (?ss ! 2))) \<noteq> []
                then py_join '' | '' (take 3 (sc_bullet_points (?ss ! 2)))
                else ''Search: '' @ py_strip '' solar panels ''"]
  from t2 [THEN conjunct2, THEN conjunct2, THEN conjunct2, THEN conjunct2, THEN conjunct2,
      THEN conjunct1] q2 n2 s2 c2 v2
  have c: "image_url (enrich_slides_with_images ?svc ?ss ! 2) = metadata_select_best (take 3 [photo_wide])"
    by blast
  note t3 = enrich_isolates_failures [OF l1, where svc = ?vf and qry = "''robot arm''"
      and rs = "[photo_wide]"
      and tp = "if sc_title (?ss ! 1) \<noteq> [] then sc_title (?ss ! 1) else py_strip ''robot arm''"
      and cx = "if py_join '' | '' (take 3 (sc_bullet_points (?ss ! 1))) \<noteq> []
                then py_join '' | '' (take 3 (sc_bullet_points (?ss ! 1)))
                else ''Search: '' @ py_strip ''robot arm''"]
  have v3': "vision ?vf = None
     \<or> (\<exists>g. vision ?vf = Some g
           \<and> (\<forall>c \<in> set (parse_candidates (take 3 [photo_wide])).
                 isl (g 1 (url c)
                   (if sc_title (?ss ! 1) \<noteq> [] then sc_title (?ss ! 1) else py_strip ''robot arm'')
                   (if py_join '' | '' (take 3 (sc_bullet_points (?ss ! 1))) \<noteq> []
                    then py_join '' | '' (take 3 (sc_bullet_points (?ss ! 1)))
                    else ''Search: '' @ py_strip ''robot arm''))))"
    unfolding v3 by simp
  from t3 [THEN conjunct2, THEN conjunct2, THEN conjunct2, THEN conjunct2, THEN conjunct2,
      THEN conjunct1] q1 n1 s3 c2 v3'
  have d: "image_url (enrich_slides_with_images ?vf ?ss ! 1) = metadata_select_best (take 3 [photo_wide])"
    by blast
  from a b c d m2 show ?thesis by simp
qed

text \<open>
  Claim C8 as stated fails on an evaluation error: every evaluation of the second slide
  raises, and the slide still gets the photo the search found.
\<close>

theorem enrich_evaluation_error_counterexample:
  "the (vision service_vision_fails) 1 ''https://img/wide'' ''Robots'' ''b | c''
     = Inl (OtherError ''vision unavailable'')
   \<and> image_url (enrich_slides_with_images service_vision_fails [slide_intro, slide_robots] ! 1)
       = Some ''https://img/wide''"
  by code_simp

subsection \<open>Image fitting\<close>

text \<open>
  \<open>round_double\<close> on two decimal literals, against the doubles Python reads them as;
  then its relative error, at most \<open>2\<close> to the power \<open>-53\<close>.
\<close>

lemma round_double_tenth: "round_double (1 / 10) = 3602879701896397 / 36028797018963968"
  by code_simp

lemma round_double_13_333: "round_double (13333 / 1000) = 7505811728966353 / 562949953421312"
  by code_simp

lemma round_half_even_error: "\<bar>of_int (round_half_even y) - y\<bar> \<le> 1 / 2"
  unfolding round_half_even_def Let_def
  by (auto simp: abs_if) linarith+

lemma exponent_of_lower:
  assumes "0 < x"
  shows "2 powi (exponent_of x + 52) \<le> x"
proof -
  obtain a b where q: "quotient_of x = (a, b)" by (cases "quotient_of x")
  then have b: "0 < b" and x: "x = of_int a / of_int b"
    using quotient_of_denom_pos quotient_of_div by blast+
  with assms have a: "0 < a"
    by (simp add: zero_less_divide_iff)
  define k where "k = bitlen a - bitlen b"
  have e: "exponent_of x + 52 = (if 2 powi k \<le> x then k else k - 1)"
    by (simp add: exponent_of_def q k_def Let_def)
  have "2 powi (k - 1) \<le> x"
  proof -
    have la: "(2::int) ^ nat (bitlen a - 1) \<le> a" and lb: "b < 2 ^ nat (bitlen b)"
      using bitlen_bounds [OF a] bitlen_bounds [OF b] by simp_all
    have pa: "0 < bitlen a" and pb: "0 < bitlen b"
      using a b bitlen_eq_zero_iff [of a] bitlen_eq_zero_iff [of b]
        bitlen_nonneg [of a] bitlen_nonneg [of b] by linarith+
    have "(2::rat) powi (k - 1) = 2 powi (bitlen a - 1) / 2 powi (bitlen b)"
    proof -
      have "k - 1 = (bitlen a - 1) - bitlen b" by (simp add: k_def)
      then show ?thesis by (simp add: power_int_diff)
    qed
    also have "\<dots> = 2 ^ nat (bitlen a - 1) / 2 ^ nat (bitlen b)"
      using pa pb by (simp add: power_int_def)
    also have "\<dots> \<le> of_int a / of_int b"
    proof (rule frac_le)
      show "(2::rat) ^ nat (bitlen a - 1) \<le> of_int a"
        using la by (metis of_int_le_iff of_int_numeral of_int_power)
      show "of_int b \<le> (2::rat) ^ nat (bitlen b)"
        using lb by (metis less_imp_le of_int_le_iff of_int_numeral of_int_power)
    qed (use a b in simp_all)
    finally show ?thesis by (simp add: x)
  qed
  with e show ?thesis by simp
qed

lemma round_double_error_pos:
  assumes "0 < x"
  shows "\<bar>round_double x - x\<bar> \<le> x / 2 ^ 53"
proof -
  define e where "e = exponent_of x"
  define p where "p = (2::rat) powi e"
  define y where "y = x / p"
  have p: "0 < p" by (simp add: p_def)
  have x: "x = y * p" using p by (simp add: y_def)
  have "2 powi (e + 52) \<le> x" unfolding e_def by (rule exponent_of_lower [OF assms])
  then have lo: "p * 2 ^ 52 \<le> x"
    by (simp add: p_def power_int_add)
  have rd: "round_double x = of_int (round_half_even y) * p"
    using assms by (simp add: round_double_def e_def p_def y_def)
  have "round_double x - x = (of_int (round_half_even y) - y) * p"
    unfolding rd using p by (simp add: y_def algebra_simps)
  then have "\<bar>round_double x - x\<bar> = \<bar>of_int (round_half_even y) - y\<bar> * p"
    using p by (simp add: abs_mult)
  also have "\<dots> \<le> (1 / 2) * p"
    using round_half_even_error [of y] p by (intro mult_right_mono) simp_all
  also have "\<dots> \<le> x / 2 ^ 53"
    using lo by simp
  finally show ?thesis .
qed

lemma round_double_minus: "round_double (- x) = - round_double x"
  by (simp add: round_double_def)

lemma round_double_error: "\<bar>round_double x - x\<bar> \<le> \<bar>x\<bar> / 2 ^ 53"
proof (cases "x = 0")
  case True
  then show ?thesis by (simp add: round_double_def)
next
  case False
  show ?thesis
  proof (cases "0 < x")
    case True
    then show ?thesis using round_double_error_pos [of x] by simp
  next
    case neg: False
    with False have "0 < - x" by simp
    from round_double_error_pos [OF this]
    have "\<bar>round_double (- x) - (- x)\<bar> \<le> (- x) / 2 ^ 53" .
    moreover have "\<bar>round_double (- x) - (- x)\<bar> = \<bar>round_double x - x\<bar>"
      unfolding round_double_minus by (metis abs_minus_cancel minus_diff_minus)
    moreover have "\<bar>x\<bar> = - x" using neg by simp
    ultimately show ?thesis by simp
  qed
qed

lemma round_double_pos_bounds:
  assumes "0 < x"
  shows "x * (1 - 1 / 2 ^ 53) \<le> round_double x" and "round_double x \<le> x * (1 + 1 / 2 ^ 53)"
    and "0 < round_double x"
proof -
  define d where "d = x / 2 ^ 53"
  have e: "\<bar>round_double x - x\<bar> \<le> d"
    unfolding d_def by (rule round_double_error_pos [OF assms])
  have a: "round_double x - x \<le> d" using abs_le_D1 [OF e] .
  have b: "- (round_double x - x) \<le> d" using abs_le_D2 [OF e] .
  have m1: "x * (1 - 1 / 2 ^ 53) = x - d" and m2: "x * (1 + 1 / 2 ^ 53) = x + d"
    unfolding d_def by (simp_all only: ring_distribs mult_1_right times_divide_eq_right)
  show l: "x * (1 - 1 / 2 ^ 53) \<le> round_double x"
    unfolding m1 using b by linarith
  show "round_double x \<le> x * (1 + 1 / 2 ^ 53)"
    unfolding m2 using a by linarith
  have "d < x" unfolding d_def using assms by simp
  with b show "0 < round_double x" by linarith
qed

lemma fit_within_box:
  assumes "0 < iw" and "0 < bw" and "0 < s" and "s \<le> round_double (bw / iw)"
  shows "round_double (iw * s) \<le> bw * (1 + 1 / 2 ^ 53) ^ 2"
proof -
  define c :: rat where "c = 1 + 1 / 2 ^ 53"
  have c: "0 < c" by (simp add: c_def)
  have "0 < bw / iw" using assms by simp
  then have "round_double (bw / iw) \<le> bw / iw * c"
    unfolding c_def by (rule round_double_pos_bounds(2))
  with assms(4) have s: "s \<le> bw / iw * c" by linarith
  have "0 < iw * s" using assms by simp
  then have "round_double (iw * s) \<le> iw * s * c"
    unfolding c_def by (rule round_double_pos_bounds(2))
  also have "\<dots> \<le> iw * (bw / iw * c) * c"
    using s assms(1) c by (intro mult_right_mono mult_left_mono) simp_all
  also have "\<dots> = bw * c ^ 2"
    using assms(1) by (simp add: power2_eq_square)
  finally show ?thesis by (simp only: c_def)
qed

lemma ratio_within_rounding:
  assumes "0 < iw" and "0 < ih" and "0 < s"
  shows "\<bar>round_double (iw * s) * ih - round_double (ih * s) * iw\<bar> \<le> iw * ih * s / 2 ^ 52"
proof -
  define ew where "ew = round_double (iw * s) - iw * s"
  define eh where "eh = round_double (ih * s) - ih * s"
  have pw: "0 < iw * s" and ph: "0 < ih * s" using assms by simp_all
  have w: "\<bar>ew\<bar> \<le> iw * s / 2 ^ 53"
    unfolding ew_def by (rule round_double_error_pos [OF pw])
  have h: "\<bar>eh\<bar> \<le> ih * s / 2 ^ 53"
    unfolding eh_def by (rule round_double_error_pos [OF ph])
  have "round_double (iw * s) * ih - round_double (ih * s) * iw = ew * ih - eh * iw"
    by (simp add: ew_def eh_def algebra_simps)
  also have "\<bar>\<dots>\<bar> \<le> \<bar>ew * ih\<bar> + \<bar>eh * iw\<bar>"
    by (rule abs_triangle_ineq4)
  also have "\<dots> = \<bar>ew\<bar> * ih + \<bar>eh\<bar> * iw"
    using assms by (simp add: abs_mult)
  also have "\<dots> \<le> iw * s / 2 ^ 53 * ih + ih * s / 2 ^ 53 * iw"
    using w h assms by (intro add_mono mult_right_mono) simp_all
  also have "\<dots> = iw * ih * s / 2 ^ 52"
    by simp
  finally show ?thesis .
qed

lemma py_int_bounds:
  assumes "0 \<le> x"
  shows "of_int (py_int x) \<le> x" and "x - 1 < of_int (py_int x)" and "0 \<le> py_int x"
  using assms by (simp_all add: py_int_def) linarith

lemma Inches_bounds:
  assumes "0 < x"
  shows "of_int (Inches x) \<le> x * 914400 * (1 + 1 / 2 ^ 53)"
    and "x * 914400 * (1 - 1 / 2 ^ 53) - 1 < of_int (Inches x)"
    and "0 \<le> Inches x"
proof -
  have p: "0 < x * 914400" using assms by simp
  note b = round_double_pos_bounds [OF p]
  have nn: "0 \<le> round_double (x * 914400)" using b(3) by simp
  show "of_int (Inches x) \<le> x * 914400 * (1 + 1 / 2 ^ 53)"
    using py_int_bounds(1) [OF nn] b(2) unfolding Inches_def EMUS_PER_INCH_def by linarith
  show "x * 914400 * (1 - 1 / 2 ^ 53) - 1 < of_int (Inches x)"
    using py_int_bounds(2) [OF nn] b(1) unfolding Inches_def EMUS_PER_INCH_def by linarith
  show "0 \<le> Inches x"
    using py_int_bounds(3) [OF nn] unfolding Inches_def EMUS_PER_INCH_def .
qed

lemma centred_within_rounding:
  "\<bar>round_double (l + round_double (round_double d / 2)) - (l + d / 2)\<bar>
     \<le> (\<bar>l\<bar> + \<bar>d\<bar>) / 2 ^ 51"
proof -
  define d1 where "d1 = round_double d"
  define h where "h = round_double (d1 / 2)"
  define c where "c = round_double (l + h)"
  have e1: "\<bar>d1 - d\<bar> \<le> \<bar>d\<bar> / 2 ^ 53"
    unfolding d1_def by (rule round_double_error)
  have e2: "\<bar>h - d1 / 2\<bar> \<le> \<bar>d1 / 2\<bar> / 2 ^ 53"
    unfolding h_def by (rule round_double_error)
  have e3: "\<bar>c - (l + h)\<bar> \<le> \<bar>l + h\<bar> / 2 ^ 53"
    unfolding c_def by (rule round_double_error)
  have "\<bar>c - (l + d / 2)\<bar> \<le> (\<bar>l\<bar> + \<bar>d\<bar>) / 2 ^ 51"
    using e1 e2 e3 by (simp add: abs_if split: if_splits) 
  then show ?thesis by (simp only: c_def h_def d1_def)
qed

lemma exponent_of_upper:
  assumes "0 < x"
  shows "x < 2 powi (exponent_of x + 53)"
proof -
  obtain a b where q: "quotient_of x = (a, b)" by (cases "quotient_of x")
  then have b: "0 < b" and x: "x = of_int a / of_int b"
    using quotient_of_denom_pos quotient_of_div by blast+
  with assms have a: "0 < a"
    by (simp add: zero_less_divide_iff)
  define k where "k = bitlen a - bitlen b"
  have e: "exponent_of x + 53 = (if 2 powi k \<le> x then k + 1 else k)"
    by (simp add: exponent_of_def q k_def Let_def)
  have "x < 2 powi (k + 1)"
  proof -
    have la: "a < (2::int) ^ nat (bitlen a)" and lb: "(2::int) ^ nat (bitlen b - 1) \<le> b"
      using bitlen_bounds [OF a] bitlen_bounds [OF b] by simp_all
    have pa: "0 < bitlen a" and pb: "0 < bitlen b"
      using a b bitlen_eq_zero_iff [of a] bitlen_eq_zero_iff [of b]
        bitlen_nonneg [of a] bitlen_nonneg [of b] by linarith+
    have "of_int a / of_int b < (2::rat) ^ nat (bitlen a) / 2 ^ nat (bitlen b - 1)"
    proof (rule frac_less)
      show "of_int a < (2::rat) ^ nat (bitlen a)"
        using la by (metis of_int_less_iff of_int_numeral of_int_power)
      show "(2::rat) ^ nat (bitlen b - 1) \<le> of_int b"
        using lb by (metis of_int_le_iff of_int_numeral of_int_power)
    qed (use a in simp_all)
    also have "\<dots> = 2 powi (bitlen a) / 2 powi (bitlen b - 1)"
      using pa pb by (simp add: power_int_def)
    also have "\<dots> = 2 powi (k + 1)"
    proof -
      have "k + 1 = bitlen a - (bitlen b - 1)"
        by (simp add: k_def)
      then have "(2::rat) powi (k + 1) = 2 powi (bitlen a - (bitlen b - 1))"
        by (rule arg_cong)
      also have "\<dots> = 2 powi (bitlen a) / 2 powi (bitlen b - 1)"
        by (rule power_int_diff) simp
      finally show ?thesis by simp
    qed
    finally show ?thesis by (simp add: x)
  qed
  with e show ?thesis by (auto simp: not_le)
qed

text \<open>
  Claim C5, as amended: the fit holds to within the rounding of double arithmetic, not
  exactly. For an image of positive pixel width and height and a box of positive
  dimensions, when \<open>add_picture\<close> does not raise, one picture is added. Its size in
  doubles is \<open>fit_w = img_w * s\<close> by \<open>fit_h = img_h * s\<close> with
  \<open>s = min (box_width / img_w) (box_height / img_h)\<close> and the image size in inches the
  pixels over 96, every operation rounded; each is turned into whole English Metric
  Units by \<open>Inches\<close>, which multiplies by 914400 and truncates. The picture is wider or
  taller than its box by rounding error at most: \<open>fit_w \<le> box_width * (1 + u)\<^sup>2\<close> with
  \<open>u\<close> the unit roundoff \<open>2\<close> to the power \<open>-53\<close>, and its width in units is at
  most \<open>box_width * 914400 * (1 + u)\<^sup>3\<close>; likewise the height. The ratio of width to
  height is kept to within rounding: \<open>fit_w * img_h\<close> and \<open>fit_h * img_w\<close> differ by at
  most \<open>2 * u * img_w * img_h * s\<close>, before the truncation to whole units, which takes
  less than one unit more. The picture is centred to within rounding: \<open>left_cen\<close> is
  within \<open>8 * u * (\<bar>left\<bar> + \<bar>box_width - fit_w\<bar>)\<close> of
  \<open>left + (box_width - fit_w) / 2\<close>, likewise \<open>top_cen\<close>. When the size of the image
  cannot be read, when a pixel dimension is not positive, and when \<open>add_picture\<close>
  raises, nothing is added to the slide and the result is \<open>False\<close>.
\<close>

theorem add_picture_fit_centered_spec:
  "(0 < w_px \<and> 0 < h_px \<and> 0 < bw \<and> 0 < bh \<longrightarrow>
      (let img_w = round_double (of_int w_px / 96);
           img_h = round_double (of_int h_px / 96);
           s = min (round_double (bw / img_w)) (round_double (bh / img_h));
           fit_w = round_double (img_w * s);
           fit_h = round_double (img_h * s);
           left_cen = round_double (l + round_double (round_double (bw - fit_w) / 2));
           top_cen = round_double (t + round_double (round_double (bh - fit_h) / 2))
       in add_picture_fit_centered (Inr (w_px, h_px)) None shapes l t bw bh
            = (True, shapes @ [\<lparr>pic_left = Inches left_cen, pic_top = Inches top_cen,
                                pic_width = \<lfloor>round_double (fit_w * 914400)\<rfloor>,
                                pic_height = \<lfloor>round_double (fit_h * 914400)\<rfloor>\<rparr>])
          \<and> 0 < fit_w \<and> 0 < fit_h
          \<and> fit_w \<le> bw * (1 + 1 / 2 ^ 53) ^ 2
          \<and> fit_h \<le> bh * (1 + 1 / 2 ^ 53) ^ 2
          \<and> \<bar>fit_w * img_h - fit_h * img_w\<bar> \<le> img_w * img_h * s / 2 ^ 52
          \<and> \<bar>left_cen - (l + (bw - fit_w) / 2)\<bar> \<le> (\<bar>l\<bar> + \<bar>bw - fit_w\<bar>) / 2 ^ 51
          \<and> \<bar>top_cen - (t + (bh - fit_h) / 2)\<bar> \<le> (\<bar>t\<bar> + \<bar>bh - fit_h\<bar>) / 2 ^ 51
          \<and> of_int \<lfloor>round_double (fit_w * 914400)\<rfloor> \<le> bw * 914400 * (1 + 1 / 2 ^ 53) ^ 3
          \<and> of_int \<lfloor>round_double (fit_h * 914400)\<rfloor> \<le> bh * 914400 * (1 + 1 / 2 ^ 53) ^ 3
          \<and> fit_w * 914400 * (1 - 1 / 2 ^ 53) - 1 < of_int \<lfloor>round_double (fit_w * 914400)\<rfloor>
          \<and> fit_h * 914400 * (1 - 1 / 2 ^ 53) - 1 < of_int \<lfloor>round_double (fit_h * 914400)\<rfloor>))
   \<and> add_picture_fit_centered (Inl e) raises shapes l t bw bh = (False, shapes)
   \<and> (w_px \<le> 0 \<or> h_px \<le> 0
        \<longrightarrow> add_picture_fit_centered (Inr (w_px, h_px)) raises shapes l t bw bh = (False, shapes))
   \<and> add_picture_fit_centered pil (Some e') shapes l t bw bh = (False, shapes)"
proof -
  have skip1: "add_picture_fit_centered (Inl e) raises shapes l t bw bh = (False, shapes)"
    by (simp add: add_picture_fit_centered_def get_image_size_inches_def)
  have skip2: "w_px \<le> 0 \<or> h_px \<le> 0
        \<longrightarrow> add_picture_fit_centered (Inr (w_px, h_px)) raises shapes l t bw bh = (False, shapes)"
    by (simp add: add_picture_fit_centered_def get_image_size_inches_def)
  have skip3: "add_picture_fit_centered pil (Some e') shapes l t bw bh = (False, shapes)"
    by (simp add: add_picture_fit_centered_def split: option.splits prod.splits)
  have main: "0 < w_px \<and> 0 < h_px \<and> 0 < bw \<and> 0 < bh \<longrightarrow>
      (let img_w = round_double (of_int w_px / 96);
           img_h = round_double (of_int h_px / 96);
           s = min (round_double (bw / img_w)) (round_double (bh / img_h));
           fit_w = round_double (img_w * s);
           fit_h = round_double (img_h * s);
           left_cen = round_double (l + round_double (round_double (bw - fit_w) / 2));
           top_cen = round_double (t + round_double (round_double (bh - fit_h) / 2))
       in add_picture_fit_centered (Inr (w_px, h_px)) None shapes l t bw bh
            = (True, shapes @ [\<lparr>pic_left = Inches left_cen, pic_top = Inches top_cen,
                                pic_width = \<lfloor>round_double (fit_w * 914400)\<rfloor>,
                                pic_height = \<lfloor>round_double (fit_h * 914400)\<rfloor>\<rparr>])
          \<and> 0 < fit_w \<and> 0 < fit_h
          \<and> fit_w \<le> bw * (1 + 1 / 2 ^ 53) ^ 2
          \<and> fit_h \<le> bh * (1 + 1 / 2 ^ 53) ^ 2
          \<and> \<bar>fit_w * img_h - fit_h * img_w\<bar> \<le> img_w * img_h * s / 2 ^ 52
          \<and> \<bar>left_cen - (l + (bw - fit_w) / 2)\<bar> \<le> (\<bar>l\<bar> + \<bar>bw - fit_w\<bar>) / 2 ^ 51
          \<and> \<bar>top_cen - (t + (bh - fit_h) / 2)\<bar> \<le> (\<bar>t\<bar> + \<bar>bh - fit_h\<bar>) / 2 ^ 51
          \<and> of_int \<lfloor>round_double (fit_w * 914400)\<rfloor> \<le> bw * 914400 * (1 + 1 / 2 ^ 53) ^ 3
          \<and> of_int \<lfloor>round_double (fit_h * 914400)\<rfloor> \<le> bh * 914400 * (1 + 1 / 2 ^ 53) ^ 3
          \<and> fit_w * 914400 * (1 - 1 / 2 ^ 53) - 1 < of_int \<lfloor>round_double (fit_w * 914400)\<rfloor>
          \<and> fit_h * 914400 * (1 - 1 / 2 ^ 53) - 1 < of_int \<lfloor>round_double (fit_h * 914400)\<rfloor>)"
  proof (intro impI, elim conjE)
    assume w: "0 < w_px" and h: "0 < h_px" and bw: "0 < bw" and bh: "0 < bh"
    define img_w where "img_w = round_double (of_int w_px / 96)"
    define img_h where "img_h = round_double (of_int h_px / 96)"
    define s where "s = min (round_double (bw / img_w)) (round_double (bh / img_h))"
    define fit_w where "fit_w = round_double (img_w * s)"
    define fit_h where "fit_h = round_double (img_h * s)"
    define left_cen where
      "left_cen = round_double (l + round_double (round_double (bw - fit_w) / 2))"
    define top_cen where
      "top_cen = round_double (t + round_double (round_double (bh - fit_h) / 2))"
    have iw: "0 < img_w" and ih: "0 < img_h"
      unfolding img_w_def img_h_def using w h by (simp_all add: round_double_pos_bounds(3))
    have q1: "0 < round_double (bw / img_w)" and q2: "0 < round_double (bh / img_h)"
      using iw ih bw bh by (simp_all add: round_double_pos_bounds(3))
    then have s: "0 < s" and s1: "s \<le> round_double (bw / img_w)"
      and s2: "s \<le> round_double (bh / img_h)"
      by (simp_all add: s_def)
    have fw: "0 < fit_w" and fh: "0 < fit_h"
      unfolding fit_w_def fit_h_def using iw ih s by (simp_all add: round_double_pos_bounds(3))
    have size: "get_image_size_inches (Inr (w_px, h_px)) = Some (img_w, img_h)"
      using w h by (simp add: get_image_size_inches_def img_w_def img_h_def IMG_DPI_def)
    have geo: "fit_geometry img_w img_h l t bw bh = (left_cen, top_cen, fit_w, fit_h)"
      by (simp add: fit_geometry_def Let_def s_def fit_w_def fit_h_def left_cen_def top_cen_def)
    have iwf: "Inches fit_w = \<lfloor>round_double (fit_w * 914400)\<rfloor>"
      using fw round_double_pos_bounds(3) [of "fit_w * 914400"]
      by (simp add: Inches_def py_int_def EMUS_PER_INCH_def)
    have ihf: "Inches fit_h = \<lfloor>round_double (fit_h * 914400)\<rfloor>"
      using fh round_double_pos_bounds(3) [of "fit_h * 914400"]
      by (simp add: Inches_def py_int_def EMUS_PER_INCH_def)
    have res: "add_picture_fit_centered (Inr (w_px, h_px)) None shapes l t bw bh
            = (True, shapes @ [\<lparr>pic_left = Inches left_cen, pic_top = Inches top_cen,
                                pic_width = \<lfloor>round_double (fit_w * 914400)\<rfloor>,
                                pic_height = \<lfloor>round_double (fit_h * 914400)\<rfloor>\<rparr>])"
      using iw ih by (simp add: add_picture_fit_centered_def size geo iwf ihf)
    have bw2: "fit_w \<le> bw * (1 + 1 / 2 ^ 53) ^ 2"
      unfolding fit_w_def by (rule fit_within_box [OF iw bw s s1])
    have bh2: "fit_h \<le> bh * (1 + 1 / 2 ^ 53) ^ 2"
      unfolding fit_h_def by (rule fit_within_box [OF ih bh s s2])
    have ratio: "\<bar>fit_w * img_h - fit_h * img_w\<bar> \<le> img_w * img_h * s / 2 ^ 52"
      unfolding fit_w_def fit_h_def by (rule ratio_within_rounding [OF iw ih s])
    have cl: "\<bar>left_cen - (l + (bw - fit_w) / 2)\<bar> \<le> (\<bar>l\<bar> + \<bar>bw - fit_w\<bar>) / 2 ^ 51"
      unfolding left_cen_def by (rule centred_within_rounding)
    have ct: "\<bar>top_cen - (t + (bh - fit_h) / 2)\<bar> \<le> (\<bar>t\<bar> + \<bar>bh - fit_h\<bar>) / 2 ^ 51"
      unfolding top_cen_def by (rule centred_within_rounding)
    have emu: "of_int \<lfloor>round_double (x * 914400)\<rfloor> \<le> b * 914400 * (1 + 1 / 2 ^ 53) ^ 3"
      if x: "0 < x" and xb: "x \<le> b * (1 + 1 / 2 ^ 53) ^ 2" for x b :: rat
    proof -
      define c :: rat where "c = 1 + 1 / 2 ^ 53"
      have c: "0 < c" by (simp add: c_def)
      have "of_int \<lfloor>round_double (x * 914400)\<rfloor> \<le> round_double (x * 914400)"
        by simp
      also have "\<dots> \<le> x * 914400 * c"
        unfolding c_def using x by (intro round_double_pos_bounds(2)) simp
      also have "\<dots> \<le> (b * c ^ 2) * 914400 * c"
        using xb c by (intro mult_right_mono) (simp_all add: c_def)
      also have "\<dots> = b * 914400 * c ^ 3"
        by (simp add: power2_eq_square power3_eq_cube)
      finally show ?thesis by (simp only: c_def)
    qed
    have low: "x * 914400 * (1 - 1 / 2 ^ 53) - 1 < of_int \<lfloor>round_double (x * 914400)\<rfloor>"
      if x: "0 < x" for x :: rat
    proof -
      have "x * 914400 * (1 - 1 / 2 ^ 53) \<le> round_double (x * 914400)"
        using x by (intro round_double_pos_bounds(1)) simp
      moreover have "round_double (x * 914400) - 1 < of_int \<lfloor>round_double (x * 914400)\<rfloor>"
        by linarith
      ultimately show ?thesis by linarith
    qed
    show "let img_w = round_double (of_int w_px / 96);
           img_h = round_double (of_int h_px / 96);
           s = min (round_double (bw / img_w)) (round_double (bh / img_h));
           fit_w = round_double (img_w * s);
           fit_h = round_double (img_h * s);
           left_cen = round_double (l + round_double (round_double (bw - fit_w) / 2));
           top_cen = round_double (t + round_double (round_double (bh - fit_h) / 2))
       in add_picture_fit_centered (Inr (w_px, h_px)) None shapes l t bw bh
            = (True, shapes @ [\<lparr>pic_left = Inches left_cen, pic_top = Inches top_cen,
                                pic_width = \<lfloor>round_double (fit_w * 914400)\<rfloor>,
                                pic_height = \<lfloor>round_double (fit_h * 914400)\<rfloor>\<rparr>])
          \<and> 0 < fit_w \<and> 0 < fit_h
          \<and> fit_w \<le> bw * (1 + 1 / 2 ^ 53) ^ 2
          \<and> fit_h \<le> bh * (1 + 1 / 2 ^ 53) ^ 2
          \<and> \<bar>fit_w * img_h - fit_h * img_w\<bar> \<le> img_w * img_h * s / 2 ^ 52
          \<and> \<bar>left_cen - (l + (bw - fit_w) / 2)\<bar> \<le> (\<bar>l\<bar> + \<bar>bw - fit_w\<bar>) / 2 ^ 51
          \<and> \<bar>top_cen - (t + (bh - fit_h) / 2)\<bar> \<le> (\<bar>t\<bar> + \<bar>bh - fit_h\<bar>) / 2 ^ 51
          \<and> of_int \<lfloor>round_double (fit_w * 914400)\<rfloor> \<le> bw * 914400 * (1 + 1 / 2 ^ 53) ^ 3
          \<and> of_int \<lfloor>round_double (fit_h * 914400)\<rfloor> \<le> bh * 914400 * (1 + 1 / 2 ^ 53) ^ 3
          \<and> fit_w * 914400 * (1 - 1 / 2 ^ 53) - 1 < of_int \<lfloor>round_double (fit_w * 914400)\<rfloor>
          \<and> fit_h * 914400 * (1 - 1 / 2 ^ 53) - 1 < of_int \<lfloor>round_double (fit_h * 914400)\<rfloor>"
      unfolding Let_def
      unfolding img_w_def [symmetric] img_h_def [symmetric]
      unfolding s_def [symmetric]
      unfolding fit_w_def [symmetric] fit_h_def [symmetric]
      unfolding left_cen_def [symmetric] top_cen_def [symmetric]
      using res fw fh bw2 bh2 ratio cl ct emu [OF fw bw2] emu [OF fh bh2] low [OF fw] low [OF fh]
      by (intro conjI)
  qed
  from main skip1 skip2 skip3 show ?thesis by (intro conjI)
qed

theorem add_picture_fit_centered_spec_witness:
  "add_picture_fit_centered (Inr (1080, 721)) None [] (round_double (63 / 10)) 0 7 (15 / 2)
     = (True, [\<lparr>pic_left = 5760720, pic_top = 1292436, pic_width = 6400800,
                pic_height = 4273126\<rparr>])
   \<and> of_int (6400800 :: int) \<le> (7 :: rat) * 914400 * (1 + 1 / 2 ^ 53) ^ 3
   \<and> add_picture_fit_centered (Inr (0, 721)) None [] (round_double (63 / 10)) 0 7 (15 / 2)
       = (False, [])"
proof -
  have h: "0 < (1080 :: int) \<and> 0 < (721 :: int) \<and> 0 < (7 :: rat) \<and> 0 < (15 / 2 :: rat)"
    by simp
  have z: "(0 :: int) \<le> 0 \<or> (721 :: int) \<le> 0"
    by simp
  have r: "add_picture_fit_centered (Inr (1080, 721)) None [] (round_double (63 / 10)) 0 7 (15 / 2)
     = (True, [\<lparr>pic_left = 5760720, pic_top = 1292436, pic_width = 6400800,
                pic_height = 4273126\<rparr>])"
    by code_simp
  note spec = add_picture_fit_centered_spec [where w_px = 1080 and h_px = 721 and bw = 7
      and bh = "15 / 2" and l = "round_double (63 / 10)" and t = 0 and shapes = "[]"
      and raises = None]
  from spec [THEN conjunct1, THEN mp, OF h]
  have e: "add_picture_fit_centered (Inr (1080, 721)) None [] (round_double (63 / 10)) 0 7 (15 / 2)
      = (True, [] @ [\<lparr>pic_left = Inches (round_double (round_double (63 / 10) + round_double (round_double (7 - round_double (round_double (1080 / 96) * min (round_double (7 / round_double (1080 / 96))) (round_double (15 / 2 / round_double (721 / 96))))) / 2))),
          pic_top = Inches (round_double (0 + round_double (round_double (15 / 2 - round_double (round_double (721 / 96) * min (round_double (7 / round_double (1080 / 96))) (round_double (15 / 2 / round_double (721 / 96))))) / 2))),
          pic_width = \<lfloor>round_double (round_double (round_double (1080 / 96) * min (round_double (7 / round_double (1080 / 96))) (round_double (15 / 2 / round_double (721 / 96)))) * 914400)\<rfloor>,
          pic_height = \<lfloor>round_double (round_double (round_double (721 / 96) * min (round_double (7 / round_double (1080 / 96))) (round_double (15 / 2 / round_double (721 / 96)))) * 914400)\<rfloor>\<rparr>])"
    and b: "of_int \<lfloor>round_double (round_double (round_double (1080 / 96) * min (round_double (7 / round_double (1080 / 96))) (round_double (15 / 2 / round_double (721 / 96)))) * 914400)\<rfloor> \<le> (7 :: rat) * 914400 * (1 + 1 / 2 ^ 53) ^ 3"
    unfolding Let_def by simp_all
  from e r have w: "\<lfloor>round_double (round_double (round_double (1080 / 96) * min (round_double (7 / round_double (1080 / 96))) (round_double (15 / 2 / round_double (721 / 96)))) * 914400)\<rfloor> = 6400800"
    by simp
  from add_picture_fit_centered_spec [where w_px = 0 and h_px = 721 and bw = 7
      and bh = "15 / 2" and l = "round_double (63 / 10)" and t = 0 and shapes = "[]"
      and raises = None, THEN conjunct2, THEN conjunct2, THEN conjunct1, THEN mp, OF z]
  have s: "add_picture_fit_centered (Inr (0, 721)) None [] (round_double (63 / 10)) 0 7 (15 / 2)
       = (False, [])" .
  from b have "of_int (6400800 :: int) \<le> (7 :: rat) * 914400 * (1 + 1 / 2 ^ 53) ^ 3"
    unfolding w .
  with r s show ?thesis by (intro conjI)
qed

text \<open>
  Claim C5 as stated fails on rounding. An image of 1080 by 721 pixels in the box of 7.0
  by 7.5 inches is rendered 6400800 by 4273126 units, which is not the ratio 1080 to
  721. An image of 1 by 274 pixels in the box of 13.333 by 7.5 inches gets the height
  \<open>fit_h = 7.500000000000001\<close>, above the height of the box.
\<close>

theorem fit_not_exact_counterexample:
  "snd (add_picture_fit_centered (Inr (1080, 721)) None [] (round_double (63 / 10)) 0 7 (15 / 2))
     = [\<lparr>pic_left = 5760720, pic_top = 1292436, pic_width = 6400800, pic_height = 4273126\<rparr>]
   \<and> (6400800 :: int) * 721 \<noteq> 4273126 * 1080
   \<and> fit_geometry (round_double (1 / 96)) (round_double (274 / 96)) 0 0
        (round_double (13333 / 1000)) (15 / 2)
       = (3745201257456425 / 562949953421312, - (1 / 2251799813685248),
          3944758797696785 / 144115188075855872, 8444249301319681 / 1125899906842624)
   \<and> (8444249301319681 / 1125899906842624 :: rat) > 15 / 2"
  by code_simp

end
